theory Spec2Isabelle
  imports Complex_Main "HOL-Library.Sublist"
begin

section \<open>Strings and character classes\<close>

text \<open>
  A Python \<open>str\<close> is modelled as a \<open>string\<close>, one \<open>char\<close> per code point; the
  model therefore covers the code points 0 to 255.  The classes below are the ones the
  patterns of the extractors use, read as Python's \<open>re\<close> reads them on \<open>str\<close>
  patterns: \<open>\d\<close> is a decimal digit, \<open>\s\<close> is a character for which
  \<open>str.isspace\<close> holds, \<open>.\<close> is anything but a newline.
\<close>

definition is_digit :: "char \<Rightarrow> bool" where
  "is_digit c = (c \<in> set ''0123456789'')"

definition is_space :: "char \<Rightarrow> bool" where
  "is_space c = ((of_char c :: nat) \<in> set [9, 10, 11, 12, 13, 28, 29, 30, 31, 32, 133, 160])"

definition is_ascii_letter :: "char \<Rightarrow> bool" where
  "is_ascii_letter c =
     (c \<in> set ''ABCDEFGHIJKLMNOPQRSTUVWXYZ'' \<or> c \<in> set ''abcdefghijklmnopqrstuvwxyz'')"

datatype cclass = Dot | Digit | Space | NonSpace | AsciiLetter

fun in_class :: "cclass \<Rightarrow> char \<Rightarrow> bool" where
  "in_class Dot c = (c \<noteq> CHR 0x0A)"
| "in_class Digit c = is_digit c"
| "in_class Space c = is_space c"
| "in_class NonSpace c = (\<not> is_space c)"
| "in_class AsciiLetter c = is_ascii_letter c"

text \<open>\<open>sub in s\<close> on strings: \<open>sub\<close> occurs somewhere in \<open>s\<close>.\<close>

fun str_in :: "string \<Rightarrow> string \<Rightarrow> bool" where
  "str_in sub [] = (sub = [])"
| "str_in sub (c # cs) = (prefix sub (c # cs) \<or> str_in sub cs)"

text \<open>\<open>sep.join(xs)\<close>.\<close>

fun str_join :: "string \<Rightarrow> string list \<Rightarrow> string" where
  "str_join sep [] = []"
| "str_join sep [x] = x"
| "str_join sep (x # y # ys) = x @ sep @ str_join sep (y # ys)"

text \<open>\<open>str.lower\<close> on the code points 0 to 255.\<close>

definition lower_char :: "char \<Rightarrow> char" where
  "lower_char c =
     (let n = (of_char c :: nat)
      in if (65 \<le> n \<and> n \<le> 90) \<or> (192 \<le> n \<and> n \<le> 222 \<and> n \<noteq> 215)
         then char_of (n + 32) else c)"

definition str_lower :: "string \<Rightarrow> string" where
  "str_lower s = map lower_char s"

text \<open>\<open>int(s)\<close> on a string of ASCII digits.\<close>

definition digit_val :: "char \<Rightarrow> nat" where
  "digit_val c = of_char c - 48"

definition int_of_str :: "string \<Rightarrow> nat" where
  "int_of_str s = foldl (\<lambda>n c. 10 * n + digit_val c) 0 s"

section \<open>The fragment of Python's \<open>re\<close> the extractors use\<close>

text \<open>
  A pattern is a tree.  \<open>Rep c n greedy\<close> is a character class repeated at least
  \<open>n\<close> times: \<open>c*\<close>, \<open>c+\<close> and \<open>c{1,}\<close> when greedy, \<open>c*?\<close> when lazy.
  \<open>Opt r\<close> is the greedy \<open>(?:r)?\<close> and \<open>Grp k r\<close> the capturing group number
  \<open>k\<close>.
\<close>

datatype regex =
    Lit string
  | One cclass
  | Rep cclass nat bool
  | Cat regex regex
  | Opt regex
  | Grp nat regex
  | Alt "regex list"

text \<open>
  A match is the matched text (group 0) and the captured groups; a group that took no
  part in the match is \<open>None\<close>.
\<close>

type_synonym match = "string \<times> (nat \<rightharpoonup> string)"

definition group0 :: "match \<Rightarrow> string" where
  "group0 m = fst m"

definition group :: "match \<Rightarrow> nat \<Rightarrow> string option" where
  "group m k = snd m k"

text \<open>
  The backtracking search order of a repetition: the greedy one tries to take one more
  character before it tries to stop, the lazy one tries to stop first.
\<close>

fun rep_greedy :: "cclass \<Rightarrow> string \<Rightarrow> string list" where
  "rep_greedy c [] = [[]]"
| "rep_greedy c (x # xs) =
     (if in_class c x then map ((#) x) (rep_greedy c xs) @ [[]] else [[]])"

fun rep_lazy :: "cclass \<Rightarrow> string \<Rightarrow> string list" where
  "rep_lazy c [] = [[]]"
| "rep_lazy c (x # xs) =
     (if in_class c x then [] # map ((#) x) (rep_lazy c xs) else [[]])"

text \<open>
  \<open>matches r s\<close> lists every way \<open>r\<close> matches at the start of \<open>s\<close>, in the order
  in which the backtracking matcher of \<open>re\<close> finds them: its first element is the
  match \<open>re\<close> reports.
\<close>

fun matches :: "regex \<Rightarrow> string \<Rightarrow> match list" where
  "matches (Lit l) s = (if prefix l s then [(l, Map.empty)] else [])"
| "matches (One c) s =
     (case s of [] \<Rightarrow> [] | x # xs \<Rightarrow> if in_class c x then [([x], Map.empty)] else [])"
| "matches (Rep c n greedy) s =
     map (\<lambda>m. (m, Map.empty))
       (filter (\<lambda>m. n \<le> length m) (if greedy then rep_greedy c s else rep_lazy c s))"
| "matches (Cat r1 r2) s =
     concat (map (\<lambda>(m1, g1).
        map (\<lambda>(m2, g2). (m1 @ m2, g1 ++ g2)) (matches r2 (drop (length m1) s)))
       (matches r1 s))"
| "matches (Opt r) s = matches r s @ [([], Map.empty)]"
| "matches (Grp k r) s = map (\<lambda>(m, g). (m, g(k \<mapsto> m))) (matches r s)"
| "matches (Alt rs) s = concat (map (\<lambda>r. matches r s) rs)"

text \<open>\<open>pattern.match(s)\<close>: a match at the start of \<open>s\<close>.\<close>

definition re_match :: "regex \<Rightarrow> string \<Rightarrow> match option" where
  "re_match r s = (case matches r s of [] \<Rightarrow> None | m # _ \<Rightarrow> Some m)"

text \<open>\<open>pattern.search(s)\<close>: the match at the leftmost position that has one.\<close>

fun re_search :: "regex \<Rightarrow> string \<Rightarrow> match option" where
  "re_search r [] = re_match r []"
| "re_search r (c # cs) =
     (case re_match r (c # cs) of None \<Rightarrow> re_search r cs | Some m \<Rightarrow> Some m)"

section \<open>\<open>extractor/log_file_base.py\<close>: the process-ID pattern and \<open>_init_entity\<close>\<close>

text \<open>\<open>PID_PATTERN = re.compile(r'\[.*?\s(#\d{1,})\]')\<close>\<close>

definition PID_PATTERN :: regex where
  "PID_PATTERN =
     Cat (Lit ''['')
       (Cat (Rep Dot 0 False)
         (Cat (One Space)
           (Cat (Grp 1 (Cat (Lit ''#'') (Rep Digit 1 True)))
             (Lit '']''))))"

text \<open>
  Every \<open>DataStruct\<close> of the extractors is a dataclass whose first field is \<open>pid\<close>,
  with default \<open>None\<close>; the extractors extend it by their own fields.
\<close>

record data_struct =
  pid :: "string option"

text \<open>
  A subclass of \<open>LogFileBase\<close> brings its class name and its implementation of the
  abstract method \<open>extract_additional_data\<close>.
\<close>

record 'a extractor =
  cls_name :: string
  extract_additional_data :: "string \<Rightarrow> 'a data_struct_scheme option"

text \<open>
  \<open>_init_entity\<close> returns \<open>False\<close> (here \<open>None\<close>) or the dataclass instance
  with its \<open>pid\<close> set to group 1 of the process-ID match.
\<close>

definition init_entity :: "'a extractor \<Rightarrow> string \<Rightarrow> 'a data_struct_scheme option" where
  "init_entity sub log_line =
     (case re_search PID_PATTERN log_line of
        None \<Rightarrow> None
      | Some pid_match \<Rightarrow>
          (case extract_additional_data sub log_line of
             None \<Rightarrow> None
           | Some additional_data \<Rightarrow> Some (additional_data\<lparr>pid := group pid_match 1\<rparr>)))"

section \<open>\<open>extractor/rails/controller.py\<close>\<close>

record controller_struct = data_struct +
  controller_name :: "string option"

text \<open>\<open>PATTERN = re.compile(r'[A-Za-z]*Controller\#[^\s]+')\<close>\<close>

definition Controller_PATTERN :: regex where
  "Controller_PATTERN =
     Cat (Rep AsciiLetter 0 True) (Cat (Lit ''Controller#'') (Rep NonSpace 1 True))"

definition Controller_extract :: "string \<Rightarrow> controller_struct option" where
  "Controller_extract log_line =
     (case re_search Controller_PATTERN log_line of
        None \<Rightarrow> None
      | Some m \<Rightarrow> Some \<lparr>pid = None, controller_name = Some (group0 m)\<rparr>)"

definition Controller :: "\<lparr>controller_name :: string option\<rparr> extractor" where
  "Controller = \<lparr>cls_name = ''Controller'', extract_additional_data = Controller_extract\<rparr>"

section \<open>\<open>extractor/rails/metrics.py\<close>\<close>

text \<open>
  A \<open>decimal.Decimal\<close> is a coefficient and an exponent of ten; its value is the
  rational \<open>coefficient * 10 ^ exponent\<close>.  \<open>Decimal('12.5')\<close> has coefficient 125
  and exponent -1.
\<close>

record decimal =
  coefficient :: nat
  exponent :: int

definition decimal_value :: "decimal \<Rightarrow> rat" where
  "decimal_value d =
     (if 0 \<le> exponent d then of_nat (coefficient d) * 10 ^ nat (exponent d)
      else of_nat (coefficient d) / 10 ^ nat (- exponent d))"

text \<open>
  \<open>Decimal(f'{a}.{b}')\<close> for two strings of digits: the digits of \<open>a\<close> followed by
  those of \<open>b\<close>, with as many places after the point as \<open>b\<close> is long.
\<close>

definition Decimal_of_parts :: "string \<Rightarrow> string \<Rightarrow> decimal" where
  "Decimal_of_parts a b = \<lparr>coefficient = int_of_str (a @ b), exponent = - int (length b)\<rparr>"


text \<open>
  \<open>VIEWS_PATTERN = re.compile(r'Views: (\d+)(?:\.(\d+))?ms')\<close>,
  \<open>DURATION_PATTERN = re.compile(r'ActiveRecord: (\d+)(?:\.(\d+))?ms')\<close>,
  \<open>ALLOCATION_PATTERN = re.compile(r'Allocations: (\d+)')\<close>
\<close>

definition VIEWS_PATTERN :: regex where
  "VIEWS_PATTERN =
     Cat (Lit ''Views: '')
       (Cat (Grp 1 (Rep Digit 1 True))
         (Cat (Opt (Cat (Lit ''.'') (Grp 2 (Rep Digit 1 True))))
           (Lit ''ms'')))"

definition DURATION_PATTERN :: regex where
  "DURATION_PATTERN =
     Cat (Lit ''ActiveRecord: '')
       (Cat (Grp 1 (Rep Digit 1 True))
         (Cat (Opt (Cat (Lit ''.'') (Grp 2 (Rep Digit 1 True))))
           (Lit ''ms'')))"

definition ALLOCATION_PATTERN :: regex where
  "ALLOCATION_PATTERN = Cat (Lit ''Allocations: '') (Grp 1 (Rep Digit 1 True))"

text \<open>
  \<open>__extract_decimal\<close>.  Group 1 of the two patterns always takes part in a match, so
  \<open>match.group(1)\<close> is a string there; the model reads an absent group 1 as the empty
  string.
\<close>

definition extract_decimal :: "match \<Rightarrow> decimal" where
  "extract_decimal m =
     (let decimal_part = (case group m 2 of
                            None \<Rightarrow> ''0''
                          | Some g \<Rightarrow> if g = [] then ''0'' else g)
      in Decimal_of_parts (case group m 1 of None \<Rightarrow> [] | Some g \<Rightarrow> g) decimal_part)"



section \<open>\<open>extractor/rails/model.py\<close>\<close>

record model_struct = data_struct +
  class_name :: "string option"

definition EXCLUDE_CLASS_NAMES :: "string list" where
  "EXCLUDE_CLASS_NAMES = [''ArInternalMetadata'', ''SchemaMigration'']"

text \<open>
  \<open>re.escape\<close> puts a backslash before each character that is special in a pattern.
\<close>

definition special_chars :: "char list" where
  "special_chars =
     ''()[]{}?*+-|^$'' @ [CHR 0x5C] @ ''.&~# '' @ [CHR 0x09, CHR 0x0A, CHR 0x0D, CHR 0x0B, CHR 0x0C]"

definition re_escape :: "string \<Rightarrow> string" where
  "re_escape s = concat (map (\<lambda>c. if c \<in> set special_chars then [CHR 0x5C, c] else [c]) s)"

text \<open>
  \<open>re.compile\<close> on the patterns \<open>__modelname_into_regexp\<close> builds: escaped names
  joined by \<open>|\<close>.  In such a pattern a backslash makes the next character literal, a
  bare \<open>|\<close> separates two alternatives and every other character is literal.
  \<open>split_alternatives\<close> reads the pattern from left to right; \<open>cur\<close> is the
  alternative read so far, reversed.
\<close>

fun split_alternatives :: "string \<Rightarrow> string \<Rightarrow> string list" where
  "split_alternatives cur [] = [rev cur]"
| "split_alternatives cur (c # cs) =
     (if c = CHR 0x5C then
        (case cs of [] \<Rightarrow> [rev cur] | d # ds \<Rightarrow> split_alternatives (d # cur) ds)
      else if c = CHR ''|'' then rev cur # split_alternatives [] cs
      else split_alternatives (c # cur) cs)"

definition re_compile_escaped :: "string \<Rightarrow> regex" where
  "re_compile_escaped p = Alt (map Lit (split_alternatives [] p))"

text \<open>
  \<open>__modelname_into_regexp\<close>.  The table names come from a database and are put
  into camel case by the \<open>inflect\<close> library; \<open>table_names\<close> is the list after
  that step (line 77 of the source).
\<close>

definition modelname_into_regexp :: "string list \<Rightarrow> regex" where
  "modelname_into_regexp table_names =
     (let escaped_table_names = map re_escape table_names;
          filtered_list = filter (\<lambda>el. el \<notin> set EXCLUDE_CLASS_NAMES) escaped_table_names
      in re_compile_escaped (str_join ''|'' filtered_list))"

definition Model_extract :: "regex \<Rightarrow> string \<Rightarrow> model_struct option" where
  "Model_extract PATTERN log_line =
     (if \<not> str_in ''DEBUG'' log_line then None
      else case re_search PATTERN log_line of
             None \<Rightarrow> None
           | Some m \<Rightarrow> Some \<lparr>pid = None, class_name = Some (group0 m)\<rparr>)"

definition Model :: "string list \<Rightarrow> \<lparr>class_name :: string option\<rparr> extractor" where
  "Model table_names =
     \<lparr>cls_name = ''Model'',
      extract_additional_data = Model_extract (modelname_into_regexp table_names)\<rparr>"

section \<open>\<open>extractor/log_file_base.py\<close>: \<open>export_tsv\<close>\<close>

text \<open>
  What the export finds on disk.  The logs directory is missing, or it lists its entries
  in the order of \<open>os.listdir\<close>; opening an entry raises \<open>OSError\<close> with a message,
  or gives the lines of the file.
\<close>

datatype log_file = Unopenable string | Readable "string list"

datatype logs_dir = Missing | Listing "(string \<times> log_file) list"

text \<open>What the export does on disk: \<open>os.makedirs\<close>, and the table it writes.\<close>

datatype 'r fs_op = MakeDirs string | WriteTsv string "'r list"

datatype level = INFO | WARNING | ERROR

text \<open>
  The instance: \<open>data_list\<close>, the records its logger has emitted and the operations it
  has done on disk, each in order.  \<open>WriteTsv path rows\<close> stands for
  \<open>pd.DataFrame(rows).to_csv(f, sep='\t', index=False)\<close> on the file at \<open>path\<close>: the
  table has one row per element of \<open>rows\<close>, in the order of the list.
\<close>

record 'r log_file_base =
  data_list :: "'r list"
  logger :: "(level \<times> string) list"
  fs :: "'r fs_op list"

definition init :: "'r log_file_base" where
  "init = \<lparr>data_list = [], logger = [], fs = []\<rparr>"

definition log_record :: "level \<Rightarrow> string \<Rightarrow> 'r log_file_base \<Rightarrow> 'r log_file_base" where
  "log_record lv msg self = self\<lparr>logger := logger self @ [(lv, msg)]\<rparr>"

datatype outcome = Returned | Raised string

text \<open>\<open>os.path.join\<close> of two components.\<close>

definition path_join :: "string \<Rightarrow> string \<Rightarrow> string" where
  "path_join a b =
     (if prefix ''/'' b then b
      else if a = [] \<or> last a = CHR ''/'' then a @ b
      else a @ ''/'' @ b)"

text \<open>The loop over the lines of one file, in \<open>__convert_log_into_array\<close>.\<close>

fun scan_lines ::
  "'a extractor \<Rightarrow> string list \<Rightarrow> 'a data_struct_scheme list \<Rightarrow> 'a data_struct_scheme list" where
  "scan_lines sub [] dl = dl"
| "scan_lines sub (line # rest) dl =
     (case init_entity sub line of
        None \<Rightarrow> scan_lines sub rest dl
      | Some entity \<Rightarrow> scan_lines sub rest (dl @ [entity]))"

definition convert_log_into_array ::
  "'a extractor \<Rightarrow> string \<Rightarrow> log_file \<Rightarrow> 'a data_struct_scheme log_file_base
     \<Rightarrow> outcome \<times> 'a data_struct_scheme log_file_base" where
  "convert_log_into_array sub filename file self =
     (let self1 = log_record INFO (''Starting to process log file: '' @ filename) self
      in case file of
           Unopenable e \<Rightarrow>
             (Raised e, log_record ERROR (''Error opening file '' @ filename @ '': '' @ e) self1)
         | Readable lines \<Rightarrow>
             (let self2 = self1\<lparr>data_list := scan_lines sub lines (data_list self1)\<rparr>
              in (Returned,
                  if data_list self2 = []
                  then log_record WARNING (''No data extracted from log file: '' @ filename) self2
                  else self2)))"

text \<open>The loop over the directory entries, in \<open>export_tsv\<close>.\<close>

fun process_files ::
  "'a extractor \<Rightarrow> string \<Rightarrow> regex \<Rightarrow> (string \<times> log_file) list
     \<Rightarrow> 'a data_struct_scheme log_file_base \<Rightarrow> outcome \<times> 'a data_struct_scheme log_file_base" where
  "process_files sub logs_dir log_name_pattern [] self = (Returned, self)"
| "process_files sub logs_dir log_name_pattern ((name, file) # rest) self =
     (if re_match log_name_pattern name \<noteq> None then
        (case convert_log_into_array sub (logs_dir @ ''/'' @ name) file self of
           (Raised e, self') \<Rightarrow> (Raised e, self')
         | (Returned, self') \<Rightarrow> process_files sub logs_dir log_name_pattern rest self')
      else process_files sub logs_dir log_name_pattern rest self)"

text \<open>
  \<open>export_tsv\<close>.  \<open>module_dir\<close> is \<open>os.path.dirname(__file__)\<close> and \<open>dir\<close> is
  what is found at the logs directory.  Creating the output directory and writing the
  file are taken to succeed.
\<close>

definition export_tsv ::
  "'a extractor \<Rightarrow> string \<Rightarrow> logs_dir \<Rightarrow> regex \<Rightarrow> string
     \<Rightarrow> 'a data_struct_scheme log_file_base \<Rightarrow> outcome \<times> 'a data_struct_scheme log_file_base" where
  "export_tsv sub module_dir dir log_name_pattern output_folder self =
     (let logs_dir = path_join module_dir ''../logs''
      in case dir of
           Missing \<Rightarrow> (Returned, log_record ERROR (''Log directory not found: '' @ logs_dir) self)
         | Listing log_files \<Rightarrow>
             (case process_files sub logs_dir log_name_pattern log_files self of
                (Raised e, self') \<Rightarrow> (Raised e, self')
              | (Returned, self') \<Rightarrow>
                  (let output_dir = path_join (path_join module_dir ''../tmp'') output_folder;
                       self2 = self'\<lparr>fs := fs self' @ [MakeDirs output_dir]\<rparr>
                   in if data_list self2 \<noteq> [] then
                        (let output_file_path =
                               output_dir @ ''/'' @ str_lower (cls_name sub) @ ''.tsv'';
                             self3 =
                               self2\<lparr>fs := fs self2 @ [WriteTsv output_file_path (data_list self2)]\<rparr>
                         in (Returned, log_record INFO (''Data exported to '' @ output_file_path) self3))
                      else (Returned, log_record WARNING ''No data found to export'' self2))))"

section \<open>\<open>tasks.py\<close>: the file-name filter\<close>

text \<open>
  \<open>log_name_pattern = re.compile(rf'{rails_env}.log.\d{{6}}')\<close>, for an environment
  name without pattern characters, such as the default \<open>production\<close>.
\<close>

definition task_log_name_pattern :: "string \<Rightarrow> regex" where
  "task_log_name_pattern rails_env =
     Cat (Lit rails_env) (Cat (One Dot) (Cat (Lit ''log'') (Cat (One Dot)
       (Cat (One Digit) (Cat (One Digit) (Cat (One Digit)
         (Cat (One Digit) (Cat (One Digit) (One Digit)))))))))"

section \<open>Properties of the matcher\<close>

lemma rep_greedy_set: "set (rep_greedy c s) = {m. prefix m s \<and> (\<forall>x\<in>set m. in_class c x)}"
  by (induction s) (auto simp: prefix_Cons)

lemma rep_lazy_set: "set (rep_lazy c s) = {m. prefix m s \<and> (\<forall>x\<in>set m. in_class c x)}"
  by (induction s) (auto simp: prefix_Cons)

lemma matches_Lit_iff:
  "(m, g) \<in> set (matches (Lit l) s) \<longleftrightarrow> prefix l s \<and> m = l \<and> g = Map.empty"
  by auto

lemma matches_One_iff:
  "(m, g) \<in> set (matches (One c) s) \<longleftrightarrow>
     (\<exists>x xs. s = x # xs \<and> in_class c x \<and> m = [x] \<and> g = Map.empty)"
  by (auto split: list.splits)

lemma matches_Rep_iff:
  "(m, g) \<in> set (matches (Rep c n b) s) \<longleftrightarrow>
     prefix m s \<and> (\<forall>x\<in>set m. in_class c x) \<and> n \<le> length m \<and> g = Map.empty"
  by (auto simp: rep_greedy_set rep_lazy_set)

lemma matches_Cat_iff:
  "(m, g) \<in> set (matches (Cat r1 r2) s) \<longleftrightarrow>
     (\<exists>m1 g1 m2 g2. (m1, g1) \<in> set (matches r1 s) \<and>
        (m2, g2) \<in> set (matches r2 (drop (length m1) s)) \<and> m = m1 @ m2 \<and> g = g1 ++ g2)"
  by (auto simp del: map_add_None) force

lemma matches_Opt_iff:
  "(m, g) \<in> set (matches (Opt r) s) \<longleftrightarrow>
     (m, g) \<in> set (matches r s) \<or> (m = [] \<and> g = Map.empty)"
  by auto

lemma matches_Grp_iff:
  "(m, g) \<in> set (matches (Grp k r) s) \<longleftrightarrow>
     (\<exists>g'. (m, g') \<in> set (matches r s) \<and> g = g'(k \<mapsto> m))"
  by auto

lemma matches_Alt_iff:
  "(m, g) \<in> set (matches (Alt rs) s) \<longleftrightarrow> (\<exists>r\<in>set rs. (m, g) \<in> set (matches r s))"
  by auto

lemma matches_prefix: "(m, g) \<in> set (matches r s) \<Longrightarrow> prefix m s"
proof (induction r arbitrary: s m g)
  case (Cat r1 r2)
  then obtain m1 g1 m2 g2 where
    a: "(m1, g1) \<in> set (matches r1 s)" and
    b: "(m2, g2) \<in> set (matches r2 (drop (length m1) s))" and m: "m = m1 @ m2"
    unfolding matches_Cat_iff by blast
  from Cat.IH(1)[OF a] obtain t where s: "s = m1 @ t" by (auto simp: prefix_def)
  from Cat.IH(2)[OF b] s have "prefix m2 t" by simp
  with s m show ?case by simp
next
  case (Alt rs)
  then show ?case unfolding matches_Alt_iff by blast
qed (auto simp: rep_greedy_set rep_lazy_set split: list.splits if_splits)

lemma matches_Cat_app_iff:
  "(m, g) \<in> set (matches (Cat r1 r2) s) \<longleftrightarrow>
     (\<exists>m1 g1 m2 g2 t. s = m1 @ t \<and> (m1, g1) \<in> set (matches r1 s) \<and>
        (m2, g2) \<in> set (matches r2 t) \<and> m = m1 @ m2 \<and> g = g1 ++ g2)"
proof
  assume "(m, g) \<in> set (matches (Cat r1 r2) s)"
  then obtain m1 g1 m2 g2 where
    a: "(m1, g1) \<in> set (matches r1 s)" and
    b: "(m2, g2) \<in> set (matches r2 (drop (length m1) s))" and
    m: "m = m1 @ m2" "g = g1 ++ g2"
    unfolding matches_Cat_iff by blast
  from matches_prefix[OF a] obtain t where s: "s = m1 @ t" by (auto simp: prefix_def)
  with b have "(m2, g2) \<in> set (matches r2 t)" by simp
  with a s m show "\<exists>m1 g1 m2 g2 t. s = m1 @ t \<and> (m1, g1) \<in> set (matches r1 s) \<and>
        (m2, g2) \<in> set (matches r2 t) \<and> m = m1 @ m2 \<and> g = g1 ++ g2" by blast
next
  assume "\<exists>m1 g1 m2 g2 t. s = m1 @ t \<and> (m1, g1) \<in> set (matches r1 s) \<and>
        (m2, g2) \<in> set (matches r2 t) \<and> m = m1 @ m2 \<and> g = g1 ++ g2"
  then obtain m1 g1 m2 g2 t where s: "s = m1 @ t" and
    a: "(m1, g1) \<in> set (matches r1 s)" and b: "(m2, g2) \<in> set (matches r2 t)" and
    m: "m = m1 @ m2" "g = g1 ++ g2" by blast
  from s b have "(m2, g2) \<in> set (matches r2 (drop (length m1) s))" by simp
  with a m show "(m, g) \<in> set (matches (Cat r1 r2) s)"
    unfolding matches_Cat_iff by blast
qed

lemma re_match_None_iff: "re_match r s = None \<longleftrightarrow> matches r s = []"
  by (simp add: re_match_def split: list.splits)

lemma re_match_SomeD: "re_match r s = Some m \<Longrightarrow> m \<in> set (matches r s)"
  by (auto simp: re_match_def split: list.splits)

lemma re_search_SomeD:
  "re_search r s = Some m \<Longrightarrow> \<exists>pre t. s = pre @ t \<and> m \<in> set (matches r t)"
proof (induction s)
  case Nil
  then show ?case by (auto dest: re_match_SomeD)
next
  case (Cons c cs)
  show ?case
  proof (cases "re_match r (c # cs)")
    case None
    with Cons obtain pre t where "cs = pre @ t" "m \<in> set (matches r t)" by auto
    then have "c # cs = (c # pre) @ t \<and> m \<in> set (matches r t)" by simp
    then show ?thesis by blast
  next
    case (Some m')
    with Cons.prems have "m \<in> set (matches r (c # cs))" by (auto dest: re_match_SomeD)
    then have "c # cs = [] @ (c # cs) \<and> m \<in> set (matches r (c # cs))" by simp
    then show ?thesis by blast
  qed
qed

lemma re_search_NoneD:
  "re_search r (pre @ t) = None \<Longrightarrow> matches r t = []"
proof (induction pre)
  case Nil
  then show ?case by (cases t) (auto simp: re_match_None_iff split: option.splits)
next
  case (Cons c pre)
  then show ?case by (auto split: option.splits)
qed

lemma re_search_None_iff:
  "re_search r s = None \<longleftrightarrow> (\<forall>pre t. s = pre @ t \<longrightarrow> matches r t = [])"
proof
  assume "re_search r s = None"
  then show "\<forall>pre t. s = pre @ t \<longrightarrow> matches r t = []" by (auto dest: re_search_NoneD)
next
  assume a: "\<forall>pre t. s = pre @ t \<longrightarrow> matches r t = []"
  show "re_search r s = None"
  proof (cases "re_search r s")
    case None then show ?thesis .
  next
    case (Some m)
    from re_search_SomeD[OF this] a show ?thesis by auto
  qed
qed


declare matches.simps [simp del]

lemma matches_CatE:
  assumes "(m, g) \<in> set (matches (Cat r1 r2) s)"
  obtains m1 g1 m2 g2 t where "s = m1 @ t" "(m1, g1) \<in> set (matches r1 s)"
    "(m2, g2) \<in> set (matches r2 t)" "m = m1 @ m2" "g = g1 ++ g2"
  using assms unfolding matches_Cat_app_iff by blast

lemma matches_CatI:
  assumes "(m1, g1) \<in> set (matches r1 (m1 @ t))" "(m2, g2) \<in> set (matches r2 t)"
  shows "(m1 @ m2, g1 ++ g2) \<in> set (matches (Cat r1 r2) (m1 @ t))"
  using assms unfolding matches_Cat_app_iff by blast

lemma matches_digits_iff:
  "(m, g) \<in> set (matches (Rep Digit 1 True) s) \<longleftrightarrow>
     prefix m s \<and> (\<forall>d\<in>set m. is_digit d) \<and> m \<noteq> [] \<and> g = Map.empty"
  unfolding matches_Rep_iff by (cases m) auto

lemma PID_PATTERN_shape:
  assumes "(m, g) \<in> set (matches PID_PATTERN s)"
  shows "\<exists>mid sp ds. m = ''['' @ mid @ [sp] @ ''#'' @ ds @ '']'' \<and> g 1 = Some (''#'' @ ds)
           \<and> ds \<noteq> [] \<and> (\<forall>d\<in>set ds. is_digit d) \<and> is_space sp \<and> CHR 0x0A \<notin> set mid"
proof -
  from assms obtain m1 g1 m2 g2 t1 where
    a1: "(m1, g1) \<in> set (matches (Lit ''['') s)" and
    a2: "(m2, g2) \<in> set (matches (Cat (Rep Dot 0 False) (Cat (One Space)
            (Cat (Grp 1 (Cat (Lit ''#'') (Rep Digit 1 True))) (Lit '']'')))) t1)" and
    e1: "m = m1 @ m2" "g = g1 ++ g2"
    unfolding PID_PATTERN_def by (rule matches_CatE)
  from a2 obtain m3 g3 m4 g4 t2 where
    a3: "(m3, g3) \<in> set (matches (Rep Dot 0 False) t1)" and
    a4: "(m4, g4) \<in> set (matches (Cat (One Space)
            (Cat (Grp 1 (Cat (Lit ''#'') (Rep Digit 1 True))) (Lit '']''))) t2)" and
    e2: "m2 = m3 @ m4" "g2 = g3 ++ g4"
    by (rule matches_CatE)
  from a4 obtain m5 g5 m6 g6 t3 where
    a5: "(m5, g5) \<in> set (matches (One Space) t2)" and
    a6: "(m6, g6) \<in> set (matches (Cat (Grp 1 (Cat (Lit ''#'') (Rep Digit 1 True))) (Lit '']'')) t3)" and
    e3: "m4 = m5 @ m6" "g4 = g5 ++ g6"
    by (rule matches_CatE)
  from a6 obtain m7 g7 m8 g8 t4 where
    a7: "(m7, g7) \<in> set (matches (Grp 1 (Cat (Lit ''#'') (Rep Digit 1 True))) t3)" and
    a8: "(m8, g8) \<in> set (matches (Lit '']'') t4)" and
    e4: "m6 = m7 @ m8" "g6 = g7 ++ g8"
    by (rule matches_CatE)
  from a7 obtain g9 where a9: "(m7, g9) \<in> set (matches (Cat (Lit ''#'') (Rep Digit 1 True)) t3)"
    and e5: "g7 = g9(1 \<mapsto> m7)"
    unfolding matches_Grp_iff by blast
  from a9 obtain h ds gh gd t5 where
    a10: "(h, gh) \<in> set (matches (Lit ''#'') t3)" and
    a11: "(ds, gd) \<in> set (matches (Rep Digit 1 True) t5)" and
    e6: "m7 = h @ ds"
    by (rule matches_CatE)
  from a1 have f1: "m1 = ''[''" "g1 = Map.empty" unfolding matches_Lit_iff by auto
  from a3 have f3: "CHR 0x0A \<notin> set m3" "g3 = Map.empty" unfolding matches_Rep_iff by auto
  from a5 obtain sp where f5: "m5 = [sp]" "is_space sp" "g5 = Map.empty"
    unfolding matches_One_iff by auto
  from a8 have f8: "m8 = '']''" "g8 = Map.empty" unfolding matches_Lit_iff by auto
  from a10 have f10: "h = ''#''" unfolding matches_Lit_iff by auto
  from a11 have f11: "ds \<noteq> []" "\<forall>d\<in>set ds. is_digit d" unfolding matches_digits_iff by auto
  have "m = ''['' @ m3 @ [sp] @ ''#'' @ ds @ '']''"
    using e1 e2 e3 e4 e6 f1 f5 f8 f10 by simp
  moreover have "g 1 = Some (''#'' @ ds)"
    using e1 e2 e3 e4 e5 e6 f1 f3 f5 f8 f10 by simp
  ultimately show ?thesis using f3 f5 f11 by blast
qed

lemma PID_PATTERN_complete:
  assumes "is_space sp" "CHR 0x0A \<notin> set mid" "ds \<noteq> []" "\<forall>d\<in>set ds. is_digit d"
  shows "(''['' @ mid @ [sp] @ ''#'' @ ds @ '']'', [1 \<mapsto> ''#'' @ ds])
          \<in> set (matches PID_PATTERN (''['' @ mid @ [sp] @ ''#'' @ ds @ '']'' @ post))"
proof -
  have nd: "\<not> is_digit CHR '']''" by (simp add: is_digit_def)
  have close: "('']'', Map.empty) \<in> set (matches (Lit '']'') ('']'' @ post))"
    unfolding matches_Lit_iff by simp
  have hash: "(''#'', Map.empty) \<in> set (matches (Lit ''#'') (''#'' @ ds @ '']'' @ post))"
    unfolding matches_Lit_iff by simp
  have "(ds, Map.empty) \<in> set (matches (Rep Digit 1 True) (ds @ '']'' @ post))"
    using assms(3,4) unfolding matches_digits_iff by simp
  from matches_CatI[OF hash this]
  have "(''#'' @ ds, Map.empty) \<in> set (matches (Cat (Lit ''#'') (Rep Digit 1 True)) (''#'' @ ds @ '']'' @ post))"
    by simp
  then have "(''#'' @ ds, [1 \<mapsto> ''#'' @ ds])
      \<in> set (matches (Grp 1 (Cat (Lit ''#'') (Rep Digit 1 True))) ((''#'' @ ds) @ '']'' @ post))"
    unfolding matches_Grp_iff by auto
  from matches_CatI[OF this close]
  have grp: "((''#'' @ ds) @ '']'', [1 \<mapsto> ''#'' @ ds])
      \<in> set (matches (Cat (Grp 1 (Cat (Lit ''#'') (Rep Digit 1 True))) (Lit '']''))
               ((''#'' @ ds) @ '']'' @ post))"
    by simp
  have "([sp], Map.empty) \<in> set (matches (One Space) ([sp] @ (''#'' @ ds) @ '']'' @ post))"
    using assms(1) unfolding matches_One_iff by simp
  from matches_CatI[OF this grp]
  have sp: "([sp] @ (''#'' @ ds) @ '']'', [1 \<mapsto> ''#'' @ ds])
      \<in> set (matches (Cat (One Space) (Cat (Grp 1 (Cat (Lit ''#'') (Rep Digit 1 True))) (Lit '']'')))
               ([sp] @ (''#'' @ ds) @ '']'' @ post))"
    by simp
  have "(mid, Map.empty) \<in> set (matches (Rep Dot 0 False) (mid @ [sp] @ (''#'' @ ds) @ '']'' @ post))"
    using assms(2) unfolding matches_Rep_iff by auto
  from matches_CatI[OF this sp]
  have mid: "(mid @ [sp] @ (''#'' @ ds) @ '']'', [1 \<mapsto> ''#'' @ ds])
      \<in> set (matches (Cat (Rep Dot 0 False) (Cat (One Space)
                 (Cat (Grp 1 (Cat (Lit ''#'') (Rep Digit 1 True))) (Lit '']''))))
               (mid @ [sp] @ (''#'' @ ds) @ '']'' @ post))"
    by simp
  have "(''['', Map.empty) \<in> set (matches (Lit ''['') (''['' @ mid @ [sp] @ (''#'' @ ds) @ '']'' @ post))"
    unfolding matches_Lit_iff by simp
  from matches_CatI[OF this mid]
  show ?thesis unfolding PID_PATTERN_def by simp
qed

lemma re_search_complete:
  assumes "m \<in> set (matches r t)"
  shows "re_search r (pre @ t) \<noteq> None"
proof
  assume "re_search r (pre @ t) = None"
  from re_search_NoneD[OF this] assms show False by simp
qed


section \<open>The line loop\<close>

lemma scan_lines_append:
  "scan_lines sub (xs @ ys) dl = scan_lines sub ys (scan_lines sub xs dl)"
  by (induction xs arbitrary: dl) (auto split: option.splits)

lemma scan_lines_acc: "scan_lines sub xs dl = dl @ scan_lines sub xs []"
proof (induction xs arbitrary: dl)
  case Nil
  show ?case by simp
next
  case (Cons x xs)
  show ?case
  proof (cases "init_entity sub x")
    case None
    with Cons[of dl] show ?thesis by simp
  next
    case (Some e)
    with Cons[of "dl @ [e]"] Cons[of "[e]"] show ?thesis by simp
  qed
qed

section \<open>The patterns of the Metrics extractor\<close>

lemma ms_pattern_shape:
  assumes "(m, g) \<in> set (matches
            (Cat (Lit lab) (Cat (Grp 1 (Rep Digit 1 True))
               (Cat (Opt (Cat (Lit ''.'') (Grp 2 (Rep Digit 1 True)))) (Lit ''ms'')))) s)"
  shows "\<exists>D. g 1 = Some D \<and> D \<noteq> [] \<and> (\<forall>d\<in>set D. is_digit d) \<and>
           ((g 2 = None \<and> m = lab @ D @ ''ms'') \<or>
            (\<exists>F. g 2 = Some F \<and> F \<noteq> [] \<and> (\<forall>d\<in>set F. is_digit d) \<and> m = lab @ D @ ''.'' @ F @ ''ms''))"
proof -
  from assms obtain m1 g1 m2 g2 t1 where
    a1: "(m1, g1) \<in> set (matches (Lit lab) s)" and
    a2: "(m2, g2) \<in> set (matches (Cat (Grp 1 (Rep Digit 1 True))
               (Cat (Opt (Cat (Lit ''.'') (Grp 2 (Rep Digit 1 True)))) (Lit ''ms''))) t1)" and
    e1: "m = m1 @ m2" "g = g1 ++ g2"
    by (rule matches_CatE)
  from a2 obtain D g3 m4 g4 t2 where
    a3: "(D, g3) \<in> set (matches (Grp 1 (Rep Digit 1 True)) t1)" and
    a4: "(m4, g4) \<in> set (matches (Cat (Opt (Cat (Lit ''.'') (Grp 2 (Rep Digit 1 True)))) (Lit ''ms'')) t2)" and
    e2: "m2 = D @ m4" "g2 = g3 ++ g4"
    by (rule matches_CatE)
  from a4 obtain m5 g5 m6 g6 t3 where
    a5: "(m5, g5) \<in> set (matches (Opt (Cat (Lit ''.'') (Grp 2 (Rep Digit 1 True)))) t2)" and
    a6: "(m6, g6) \<in> set (matches (Lit ''ms'') t3)" and
    e3: "m4 = m5 @ m6" "g4 = g5 ++ g6"
    by (rule matches_CatE)
  from a1 have f1: "m1 = lab" "g1 = Map.empty" unfolding matches_Lit_iff by auto
  from a3 have f3: "D \<noteq> []" "\<forall>d\<in>set D. is_digit d" "g3 = [1 \<mapsto> D]"
    unfolding matches_Grp_iff matches_digits_iff by auto
  from a6 have f6: "m6 = ''ms''" "g6 = Map.empty" unfolding matches_Lit_iff by auto
  from a5 consider
    (frac) "(m5, g5) \<in> set (matches (Cat (Lit ''.'') (Grp 2 (Rep Digit 1 True))) t2)"
    | (none) "m5 = []" "g5 = Map.empty"
    unfolding matches_Opt_iff by blast
  then show ?thesis
  proof cases
    case frac
    then obtain p gp F gf t4 where
      b1: "(p, gp) \<in> set (matches (Lit ''.'') t2)" and
      b2: "(F, gf) \<in> set (matches (Grp 2 (Rep Digit 1 True)) t4)" and
      e4: "m5 = p @ F" "g5 = gp ++ gf"
      by (rule matches_CatE)
    from b1 have h1: "p = ''.''" "gp = Map.empty" unfolding matches_Lit_iff by auto
    from b2 have h2: "F \<noteq> []" "\<forall>d\<in>set F. is_digit d" "gf = [2 \<mapsto> F]"
      unfolding matches_Grp_iff matches_digits_iff by auto
    have "g 1 = Some D" "g 2 = Some F" "m = lab @ D @ ''.'' @ F @ ''ms''"
      using e1 e2 e3 e4 f1 f3 f6 h1 h2 by (simp_all add: map_add_def)
    with f3 h2 show ?thesis by blast
  next
    case none
    have "g 1 = Some D" "g 2 = None" "m = lab @ D @ ''ms''"
      using e1 e2 e3 f1 f3 f6 none by (simp_all add: map_add_def)
    with f3 show ?thesis by blast
  qed
qed

lemma ALLOCATION_PATTERN_shape:
  assumes "(m, g) \<in> set (matches ALLOCATION_PATTERN s)"
  shows "\<exists>D. g 1 = Some D \<and> D \<noteq> [] \<and> (\<forall>d\<in>set D. is_digit d) \<and> m = ''Allocations: '' @ D"
proof -
  from assms obtain m1 g1 D g2 t1 where
    a1: "(m1, g1) \<in> set (matches (Lit ''Allocations: '') s)" and
    a2: "(D, g2) \<in> set (matches (Grp 1 (Rep Digit 1 True)) t1)" and
    e1: "m = m1 @ D" "g = g1 ++ g2"
    unfolding ALLOCATION_PATTERN_def by (rule matches_CatE)
  from a1 have f1: "m1 = ''Allocations: ''" "g1 = Map.empty" unfolding matches_Lit_iff by auto
  from a2 have f2: "D \<noteq> []" "\<forall>d\<in>set D. is_digit d" "g2 = [1 \<mapsto> D]"
    unfolding matches_Grp_iff matches_digits_iff by auto
  have "g 1 = Some D" "m = ''Allocations: '' @ D" using e1 f1 f2 by simp_all
  with f2 show ?thesis by blast
qed

section \<open>Decimals\<close>

lemma foldl_digits_append:
  "foldl (\<lambda>n c. 10 * n + digit_val c) a (xs @ ys)
     = foldl (\<lambda>n c. 10 * n + digit_val c) (foldl (\<lambda>n c. 10 * n + digit_val c) a xs) ys"
  by simp

lemma foldl_digits_acc:
  "foldl (\<lambda>n c. 10 * n + digit_val c) a ys
     = a * 10 ^ length ys + foldl (\<lambda>n c. 10 * n + digit_val c) 0 ys"
proof (induction ys arbitrary: a)
  case Nil
  show ?case by simp
next
  case (Cons y ys)
  from Cons[of "10 * a + digit_val y"] Cons[of "digit_val y"]
  show ?case by (simp add: algebra_simps)
qed

lemma int_of_str_append:
  "int_of_str (a @ b) = int_of_str a * 10 ^ length b + int_of_str b"
  unfolding int_of_str_def foldl_digits_append by (rule foldl_digits_acc)

lemma decimal_value_parts:
  assumes "b \<noteq> []"
  shows "decimal_value (Decimal_of_parts a b)
           = of_nat (int_of_str a) + of_nat (int_of_str b) / 10 ^ length b"
proof -
  from assms have "\<not> (0::int) \<le> - int (length b)" by simp
  then have "decimal_value (Decimal_of_parts a b)
      = of_nat (int_of_str a * 10 ^ length b + int_of_str b) / 10 ^ length b"
    by (simp add: decimal_value_def Decimal_of_parts_def int_of_str_append)
  also have "\<dots> = of_nat (int_of_str a) + of_nat (int_of_str b) / 10 ^ length b"
    by (simp add: add_divide_distrib)
  finally show ?thesis .
qed

lemma int_of_str_zero: "int_of_str ''0'' = 0"
  by (simp add: int_of_str_def digit_val_def)

section \<open>The file loop\<close>

lemma convert_fs: "fs (snd (convert_log_into_array sub filename lf self)) = fs self"
  by (cases lf) (simp_all add: convert_log_into_array_def log_record_def Let_def)

lemma process_files_fs: "fs (snd (process_files sub ld pat files self)) = fs self"
proof (induction files arbitrary: self)
  case Nil
  show ?case by simp
next
  case (Cons nf files)
  obtain name lf where nf: "nf = (name, lf)" by (cases nf)
  show ?case
  proof (cases "re_match pat name \<noteq> None")
    case False
    with Cons nf show ?thesis by simp
  next
    case True
    obtain oc s1 where c: "convert_log_into_array sub (ld @ ''/'' @ name) lf self = (oc, s1)"
      by (cases "convert_log_into_array sub (ld @ ''/'' @ name) lf self")
    from convert_fs[of sub "ld @ ''/'' @ name" lf self] c have f1: "fs s1 = fs self" by simp
    show ?thesis
    proof (cases oc)
      case Returned
      with True c nf Cons[of s1] f1 show ?thesis by simp
    next
      case (Raised e)
      with True c nf f1 show ?thesis by simp
    qed
  qed
qed

lemma process_files_append:
  "process_files sub ld pat (xs @ ys) self =
     (case process_files sub ld pat xs self of
        (Raised e, self') \<Rightarrow> (Raised e, self')
      | (Returned, self') \<Rightarrow> process_files sub ld pat ys self')"
proof (induction xs arbitrary: self)
  case Nil
  show ?case by simp
next
  case (Cons nf xs)
  obtain name lf where nf: "nf = (name, lf)" by (cases nf)
  show ?case
  proof (cases "re_match pat name \<noteq> None")
    case False
    with Cons nf show ?thesis by simp
  next
    case True
    obtain oc s1 where c: "convert_log_into_array sub (ld @ ''/'' @ name) lf self = (oc, s1)"
      by (cases "convert_log_into_array sub (ld @ ''/'' @ name) lf self")
    show ?thesis
    proof (cases oc)
      case Returned
      with True c nf Cons[of s1] show ?thesis by simp
    next
      case (Raised e)
      with True c nf show ?thesis by simp
    qed
  qed
qed

lemma convert_data:
  "fst (convert_log_into_array sub filename lf self)
     = fst (convert_log_into_array sub filename lf t)
   \<and> (\<exists>R. data_list (snd (convert_log_into_array sub filename lf self)) = data_list self @ R
          \<and> data_list (snd (convert_log_into_array sub filename lf t)) = data_list t @ R)"
proof (cases lf)
  case (Unopenable e)
  then show ?thesis by (simp add: convert_log_into_array_def log_record_def Let_def)
next
  case (Readable lines)
  have "scan_lines sub lines (data_list self) = data_list self @ scan_lines sub lines []"
       "scan_lines sub lines (data_list t) = data_list t @ scan_lines sub lines []"
    by (rule scan_lines_acc)+
  with Readable show ?thesis
    by (simp add: convert_log_into_array_def log_record_def Let_def)
qed

lemma process_files_data:
  "fst (process_files sub ld pat files self) = fst (process_files sub ld pat files t)
   \<and> (\<exists>R. data_list (snd (process_files sub ld pat files self)) = data_list self @ R
          \<and> data_list (snd (process_files sub ld pat files t)) = data_list t @ R)"
proof (induction files arbitrary: self t)
  case Nil
  show ?case by simp
next
  case (Cons nf files)
  obtain name lf where nf: "nf = (name, lf)" by (cases nf)
  show ?case
  proof (cases "re_match pat name \<noteq> None")
    case False
    with Cons[of self t] nf show ?thesis by simp
  next
    case True
    obtain oc s1 where c: "convert_log_into_array sub (ld @ ''/'' @ name) lf self = (oc, s1)"
      by (cases "convert_log_into_array sub (ld @ ''/'' @ name) lf self")
    obtain oc' t1 where c': "convert_log_into_array sub (ld @ ''/'' @ name) lf t = (oc', t1)"
      by (cases "convert_log_into_array sub (ld @ ''/'' @ name) lf t")
    from convert_data[of sub "ld @ ''/'' @ name" lf self t] c c'
    obtain R where oc: "oc' = oc" and R: "data_list s1 = data_list self @ R" "data_list t1 = data_list t @ R"
      by auto
    show ?thesis
    proof (cases oc)
      case (Raised e)
      with True c c' oc nf R show ?thesis by simp
    next
      case Returned
      from Cons[of s1 t1] obtain R' where
        f: "fst (process_files sub ld pat files s1) = fst (process_files sub ld pat files t1)" and
        R': "data_list (snd (process_files sub ld pat files s1)) = data_list s1 @ R'"
            "data_list (snd (process_files sub ld pat files t1)) = data_list t1 @ R'"
        by blast
      from R R' have
        "data_list (snd (process_files sub ld pat files s1)) = data_list self @ (R @ R')"
        "data_list (snd (process_files sub ld pat files t1)) = data_list t @ (R @ R')"
        by simp_all
      with Returned True c c' oc nf f show ?thesis by simp
    qed
  qed
qed

lemma process_files_from_init:
  assumes "process_files sub ld pat files init = (oc, s0)"
  shows "\<exists>s. process_files sub ld pat files self = (oc, s)
              \<and> data_list s = data_list self @ data_list s0"
proof -
  from process_files_data[of sub ld pat files self init] assms
  obtain R where f: "fst (process_files sub ld pat files self) = oc" and
    R: "data_list (snd (process_files sub ld pat files self)) = data_list self @ R"
       "data_list s0 = data_list init @ R"
    by auto
  from R(2) have "data_list s0 = R" by (simp add: init_def)
  with f R(1) show ?thesis
    by (cases "process_files sub ld pat files self") auto
qed

section \<open>The pattern of the Model extractor\<close>

lemma re_search_empty_pattern: "re_search (Alt [Lit []]) s = Some ([], Map.empty)"
  by (cases s) (simp_all add: re_match_def matches.simps)

section \<open>The first process-ID token of a line\<close>

lemma space_not_digit: "is_space c \<Longrightarrow> \<not> is_digit c"
  by (auto simp: is_space_def is_digit_def)

lemma space_not_hash: "is_space c \<Longrightarrow> c \<noteq> CHR ''#''"
  by (auto simp: is_space_def)

lemma space_not_close: "is_space c \<Longrightarrow> c \<noteq> CHR '']''"
  by (auto simp: is_space_def)

lemma digit_not_close: "is_digit c \<Longrightarrow> c \<noteq> CHR '']''"
  by (auto simp: is_digit_def)

lemma digits_then_close_not_inside:
  assumes "prefix (ds' @ '']'') (us @ sp # w)" and "CHR '']'' \<notin> set us"
    and "\<forall>d\<in>set ds'. is_digit d" and "is_space sp"
  shows False
  using assms
proof (induction us arbitrary: ds')
  case Nil
  then show ?case
    by (cases ds') (auto dest: space_not_digit space_not_close)
next
  case (Cons x xs)
  then show ?case
    by (cases ds') auto
qed

lemma no_token_inside:
  assumes "prefix ([sp'] @ ''#'' @ ds' @ '']'') (u @ sp # w)" and "u \<noteq> []"
    and "CHR '']'' \<notin> set u" and "\<forall>d\<in>set ds'. is_digit d" and "is_space sp"
  shows False
proof -
  from assms(2) obtain u1 us where u: "u = u1 # us" by (cases u) auto
  with assms(1) have p: "prefix (''#'' @ ds' @ '']'') (us @ sp # w)" by simp
  show False
  proof (cases us)
    case Nil
    with p assms(5) show False by (auto dest: space_not_hash)
  next
    case (Cons h us')
    with p have "prefix (ds' @ '']'') (us' @ sp # w)" by simp
    moreover from u Cons assms(3) have "CHR '']'' \<notin> set us'" by simp
    ultimately show False using assms(4,5) by (rule digits_then_close_not_inside)
  qed
qed

lemma PID_tail_shape:
  assumes "(m, g) \<in> set (matches (Cat (One Space)
             (Cat (Grp 1 (Cat (Lit ''#'') (Rep Digit 1 True))) (Lit '']''))) s)"
  shows "\<exists>sp ds. m = [sp] @ ''#'' @ ds @ '']'' \<and> (\<forall>d\<in>set ds. is_digit d)"
proof -
  from assms obtain m5 g5 m6 g6 t3 where
    a5: "(m5, g5) \<in> set (matches (One Space) s)" and
    a6: "(m6, g6) \<in> set (matches (Cat (Grp 1 (Cat (Lit ''#'') (Rep Digit 1 True))) (Lit '']'')) t3)" and
    e3: "m = m5 @ m6"
    by (rule matches_CatE)
  from a6 obtain m7 g7 m8 g8 t4 where
    a7: "(m7, g7) \<in> set (matches (Grp 1 (Cat (Lit ''#'') (Rep Digit 1 True))) t3)" and
    a8: "(m8, g8) \<in> set (matches (Lit '']'') t4)" and
    e4: "m6 = m7 @ m8"
    by (rule matches_CatE)
  from a7 obtain g9 where a9: "(m7, g9) \<in> set (matches (Cat (Lit ''#'') (Rep Digit 1 True)) t3)"
    unfolding matches_Grp_iff by blast
  from a9 obtain h ds gh gd t5 where
    a10: "(h, gh) \<in> set (matches (Lit ''#'') t3)" and
    a11: "(ds, gd) \<in> set (matches (Rep Digit 1 True) t5)" and
    e6: "m7 = h @ ds"
    by (rule matches_CatE)
  from a5 obtain sp where f5: "m5 = [sp]" unfolding matches_One_iff by auto
  from a8 have f8: "m8 = '']''" unfolding matches_Lit_iff by auto
  from a10 have f10: "h = ''#''" unfolding matches_Lit_iff by auto
  from a11 have f11: "\<forall>d\<in>set ds. is_digit d" unfolding matches_digits_iff by auto
  have "m = [sp] @ ''#'' @ ds @ '']''" using e3 e4 e6 f5 f8 f10 by simp
  with f11 show ?thesis by blast
qed

lemma PID_tail_fails_inside:
  assumes "u \<noteq> []" and "CHR '']'' \<notin> set u" and "is_space sp"
  shows "matches (Cat (One Space) (Cat (Grp 1 (Cat (Lit ''#'') (Rep Digit 1 True))) (Lit '']'')))
           (u @ sp # w) = []"
proof (rule ccontr)
  assume "matches (Cat (One Space) (Cat (Grp 1 (Cat (Lit ''#'') (Rep Digit 1 True))) (Lit '']'')))
           (u @ sp # w) \<noteq> []"
  then obtain m g where mem: "(m, g) \<in> set (matches (Cat (One Space)
      (Cat (Grp 1 (Cat (Lit ''#'') (Rep Digit 1 True))) (Lit '']''))) (u @ sp # w))"
    by (cases "matches (Cat (One Space) (Cat (Grp 1 (Cat (Lit ''#'') (Rep Digit 1 True))) (Lit '']'')))
           (u @ sp # w)") auto
  from PID_tail_shape[OF mem] obtain sp' ds' where
    m: "m = [sp'] @ ''#'' @ ds' @ '']''" and d: "\<forall>d\<in>set ds'. is_digit d" by blast
  from matches_prefix[OF mem] m have "prefix ([sp'] @ ''#'' @ ds' @ '']'') (u @ sp # w)" by simp
  from no_token_inside[OF this assms(1,2) d assms(3)] show False .
qed

lemma rep_greedy_head:
  assumes "\<forall>d\<in>set ds. in_class c d" and "t = [] \<or> \<not> in_class c (hd t)"
  shows "\<exists>rest. rep_greedy c (ds @ t) = ds # rest"
  using assms
proof (induction ds)
  case Nil
  then show ?case by (cases t) auto
next
  case (Cons d ds)
  then obtain rest where "rep_greedy c (ds @ t) = ds # rest" by auto
  with Cons.prems show ?case by simp
qed

lemma matches_digits_head:
  assumes "ds \<noteq> []" and "\<forall>d\<in>set ds. is_digit d"
  shows "\<exists>rest. matches (Rep Digit 1 True) (ds @ '']'' @ post) = (ds, Map.empty) # rest"
proof -
  have "\<not> in_class Digit (hd ('']'' @ post))" by (simp add: is_digit_def)
  with rep_greedy_head[of ds Digit "'']'' @ post"] assms(2)
  obtain rest where r: "rep_greedy Digit (ds @ '']'' @ post) = ds # rest" by auto
  from assms(1) have "1 \<le> length ds" by (cases ds) auto
  with r show ?thesis by (simp add: matches.simps)
qed

lemma matches_Cat_head:
  assumes "matches r1 (m1 @ t) = (m1, g1) # rest1" and "matches r2 t = (m2, g2) # rest2"
  shows "\<exists>rest. matches (Cat r1 r2) (m1 @ t) = (m1 @ m2, g1 ++ g2) # rest"
  using assms by (simp add: matches.simps)

lemma matches_Grp_head:
  assumes "matches r s = (m, g) # rest"
  shows "\<exists>rest'. matches (Grp k r) s = (m, g(k \<mapsto> m)) # rest'"
  using assms by (simp add: matches.simps)

lemma PID_tail_head:
  assumes "is_space sp" and "ds \<noteq> []" and "\<forall>d\<in>set ds. is_digit d"
  shows "\<exists>rest. matches (Cat (One Space) (Cat (Grp 1 (Cat (Lit ''#'') (Rep Digit 1 True))) (Lit '']'')))
           ([sp] @ (''#'' @ ds) @ '']'' @ post)
         = ([sp] @ (''#'' @ ds) @ '']'', [1 \<mapsto> ''#'' @ ds]) # rest"
proof -
  from matches_digits_head[OF assms(2,3), of post] obtain r1 where
    d: "matches (Rep Digit 1 True) (ds @ '']'' @ post) = (ds, Map.empty) # r1" by blast
  have h: "matches (Lit ''#'') (''#'' @ ds @ '']'' @ post) = (''#'', Map.empty) # []"
    by (simp add: matches.simps)
  from matches_Cat_head[OF h d] obtain r2 where
    "matches (Cat (Lit ''#'') (Rep Digit 1 True)) (''#'' @ ds @ '']'' @ post)
       = (''#'' @ ds, Map.empty) # r2" by auto
  from matches_Grp_head[OF this, of 1] obtain r3 where
    g: "matches (Grp 1 (Cat (Lit ''#'') (Rep Digit 1 True))) ((''#'' @ ds) @ '']'' @ post)
       = (''#'' @ ds, [1 \<mapsto> ''#'' @ ds]) # r3" by auto
  have c: "matches (Lit '']'') ('']'' @ post) = ('']'', Map.empty) # []"
    by (simp add: matches.simps)
  from matches_Cat_head[OF g c] obtain r4 where
    gc: "matches (Cat (Grp 1 (Cat (Lit ''#'') (Rep Digit 1 True))) (Lit '']''))
           ((''#'' @ ds) @ '']'' @ post)
       = ((''#'' @ ds) @ '']'', [1 \<mapsto> ''#'' @ ds]) # r4" by auto
  have s: "matches (One Space) ([sp] @ (''#'' @ ds) @ '']'' @ post) = ([sp], Map.empty) # []"
    using assms(1) by (simp add: matches.simps)
  from matches_Cat_head[OF s gc] show ?thesis by auto
qed

lemma matches_lazy_Cons:
  assumes "in_class c x"
  shows "matches (Cat (Rep c 0 False) r) (x # s)
         = map (\<lambda>(m2, g2). (m2, Map.empty ++ g2)) (matches r (x # s))
           @ map (\<lambda>(m, g). (x # m, g)) (matches (Cat (Rep c 0 False) r) s)"
  using assms
  by (simp add: matches.simps map_concat comp_def split_def)

lemma matches_lazy_skip:
  assumes "\<forall>x\<in>set mid. in_class c x"
    and "\<forall>w u. mid = w @ u \<and> u \<noteq> [] \<longrightarrow> matches r (u @ v) = []"
    and "matches r v = (m2, g2) # rest"
  shows "\<exists>rest'. matches (Cat (Rep c 0 False) r) (mid @ v) = (mid @ m2, g2) # rest'"
  using assms(1,2)
proof (induction mid)
  case Nil
  have "\<exists>rest'. rep_lazy c v = [] # rest'" by (cases v) auto
  then obtain r0 where "rep_lazy c v = [] # r0" by blast
  with assms(3) show ?case by (simp add: matches.simps)
next
  case (Cons x xs)
  from Cons.prems(2) have z: "matches r ((x # xs) @ v) = []" by blast
  have "\<forall>w u. xs = w @ u \<and> u \<noteq> [] \<longrightarrow> matches r (u @ v) = []"
  proof (intro allI impI)
    fix w u assume "xs = w @ u \<and> u \<noteq> []"
    then have "x # xs = (x # w) @ u \<and> u \<noteq> []" by simp
    with Cons.prems(2) show "matches r (u @ v) = []" by blast
  qed
  with Cons.IH Cons.prems(1) obtain r1 where
    "matches (Cat (Rep c 0 False) r) (xs @ v) = (xs @ m2, g2) # r1" by auto
  with z Cons.prems(1) show ?case by (simp add: matches_lazy_Cons)
qed

lemma PID_PATTERN_first_token:
  assumes "is_space sp" and "CHR 0x0A \<notin> set mid" and "ds \<noteq> []" and "\<forall>d\<in>set ds. is_digit d"
    and "CHR '']'' \<notin> set mid"
  shows "re_match PID_PATTERN (''['' @ mid @ [sp] @ ''#'' @ ds @ '']'' @ post)
         = Some (''['' @ mid @ [sp] @ ''#'' @ ds @ '']'', [1 \<mapsto> ''#'' @ ds])"
proof -
  let ?tail = "Cat (One Space) (Cat (Grp 1 (Cat (Lit ''#'') (Rep Digit 1 True))) (Lit '']''))"
  let ?v = "[sp] @ (''#'' @ ds) @ '']'' @ post"
  from PID_tail_head[OF assms(1,3,4), of post] obtain r1 where
    t: "matches ?tail ?v = ([sp] @ (''#'' @ ds) @ '']'', [1 \<mapsto> ''#'' @ ds]) # r1" by blast
  have f: "\<forall>w u. mid = w @ u \<and> u \<noteq> [] \<longrightarrow> matches ?tail (u @ ?v) = []"
  proof (intro allI impI)
    fix w u assume a: "mid = w @ u \<and> u \<noteq> []"
    with assms(5) have "CHR '']'' \<notin> set u" by auto
    from PID_tail_fails_inside[OF _ this assms(1), of "(''#'' @ ds) @ '']'' @ post"] a
    show "matches ?tail (u @ ?v) = []" by simp
  qed
  from assms(2) have "\<forall>x\<in>set mid. in_class Dot x" by auto
  from matches_lazy_skip[OF this f t] obtain r2 where
    l: "matches (Cat (Rep Dot 0 False) ?tail) (mid @ ?v)
         = (mid @ [sp] @ (''#'' @ ds) @ '']'', [1 \<mapsto> ''#'' @ ds]) # r2" by blast
  have b: "matches (Lit ''['') (''['' @ mid @ ?v) = (''['', Map.empty) # []"
    by (simp add: matches.simps)
  from matches_Cat_head[OF b l] obtain r3 where
    "matches PID_PATTERN (''['' @ mid @ ?v)
       = (''['' @ mid @ [sp] @ (''#'' @ ds) @ '']'', [1 \<mapsto> ''#'' @ ds]) # r3"
    unfolding PID_PATTERN_def by auto
  then show ?thesis by (simp add: re_match_def)
qed

lemma re_match_PID_needs_bracket:
  assumes "c \<noteq> CHR ''[''"
  shows "re_match PID_PATTERN (c # s) = None"
  using assms by (simp add: re_match_def PID_PATTERN_def matches.simps)

lemma re_search_PID_skip:
  assumes "CHR ''['' \<notin> set pre"
  shows "re_search PID_PATTERN (pre @ t) = re_search PID_PATTERN t"
  using assms
proof (induction pre)
  case Nil
  show ?case by simp
next
  case (Cons a pre)
  then have "a \<noteq> CHR ''[''" by auto
  from re_match_PID_needs_bracket[OF this, of "pre @ t"] Cons show ?case by simp
qed

lemma re_search_PID_first_token:
  assumes "is_space sp" and "CHR 0x0A \<notin> set mid" and "ds \<noteq> []" and "\<forall>d\<in>set ds. is_digit d"
    and "CHR '']'' \<notin> set mid" and "CHR ''['' \<notin> set pre"
  shows "re_search PID_PATTERN (pre @ ''['' @ mid @ [sp] @ ''#'' @ ds @ '']'' @ post)
         = Some (''['' @ mid @ [sp] @ ''#'' @ ds @ '']'', [1 \<mapsto> ''#'' @ ds])"
proof -
  from PID_PATTERN_first_token[OF assms(1-5), of post]
  have "re_search PID_PATTERN (''['' @ mid @ [sp] @ ''#'' @ ds @ '']'' @ post)
         = Some (''['' @ mid @ [sp] @ ''#'' @ ds @ '']'', [1 \<mapsto> ''#'' @ ds])"
    by simp
  with re_search_PID_skip[OF assms(6), of "''['' @ mid @ [sp] @ ''#'' @ ds @ '']'' @ post"]
  show ?thesis by simp
qed

section \<open>Claims\<close>

text \<open>
  C1, as amended.  On every line that contains a token \<open>[mid sp #ds]\<close> (a bracket, any
  text without a newline, one whitespace character, a hash, one or more digits, a
  closing bracket), the process-ID pattern matches, the matched text is a token of that
  shape standing on the line, and group 1 is the hash and the digits of that very token:
  the hash is part of the value.  Whatever the extractor returns for the line becomes a
  record whose \<open>pid\<close> is that hash-prefixed string.  The token the pattern picks is the
  given one when no opening bracket stands before it on the line and no closing bracket
  stands inside it.  On a line with an earlier token it can be the earlier one: the line
  \<open>[X #1] [App #42] UsersController#show\<close> gives the \<open>pid\<close> \<open>#1\<close>.
\<close>

theorem C1_pid_keeps_hash:
  assumes "is_space sp" and "CHR 0x0A \<notin> set mid" and "ds \<noteq> []" and "\<forall>d\<in>set ds. is_digit d"
  shows "\<exists>m pre' mid' sp' ds' post'.
           re_search PID_PATTERN (pre @ ''['' @ mid @ [sp] @ ''#'' @ ds @ '']'' @ post) = Some m
           \<and> pre @ ''['' @ mid @ [sp] @ ''#'' @ ds @ '']'' @ post
               = pre' @ ''['' @ mid' @ [sp'] @ ''#'' @ ds' @ '']'' @ post'
           \<and> group0 m = ''['' @ mid' @ [sp'] @ ''#'' @ ds' @ '']''
           \<and> group m 1 = Some (''#'' @ ds')
           \<and> ds' \<noteq> [] \<and> (\<forall>d\<in>set ds'. is_digit d) \<and> is_space sp' \<and> CHR 0x0A \<notin> set mid'
           \<and> (\<forall>r. extract_additional_data sub (pre @ ''['' @ mid @ [sp] @ ''#'' @ ds @ '']'' @ post) = Some r
                 \<longrightarrow> init_entity sub (pre @ ''['' @ mid @ [sp] @ ''#'' @ ds @ '']'' @ post)
                       = Some (r\<lparr>pid := Some (''#'' @ ds')\<rparr>))
           \<and> (CHR ''['' \<notin> set pre \<and> CHR '']'' \<notin> set mid
                 \<longrightarrow> pre' = pre \<and> mid' = mid \<and> sp' = sp \<and> ds' = ds \<and> post' = post)"
proof -
  let ?line = "pre @ ''['' @ mid @ [sp] @ ''#'' @ ds @ '']'' @ post"
  show ?thesis
  proof (cases "CHR ''['' \<notin> set pre \<and> CHR '']'' \<notin> set mid")
    case True
    from re_search_PID_first_token[OF assms, of pre post] True
    have m: "re_search PID_PATTERN ?line
              = Some (''['' @ mid @ [sp] @ ''#'' @ ds @ '']'', [1 \<mapsto> ''#'' @ ds])"
      by blast
    let ?m = "(''['' @ mid @ [sp] @ ''#'' @ ds @ '']'', [1 \<mapsto> ''#'' @ ds])"
    have g0: "group0 ?m = ''['' @ mid @ [sp] @ ''#'' @ ds @ '']''" by (simp add: group0_def)
    have g1: "group ?m 1 = Some (''#'' @ ds)" by (simp add: group_def)
    have ie: "\<forall>r. extract_additional_data sub ?line = Some r
          \<longrightarrow> init_entity sub ?line = Some (r\<lparr>pid := Some (''#'' @ ds)\<rparr>)"
      using m g1 by (simp add: init_entity_def)
    from m g0 g1 ie assms show ?thesis by blast
  next
    case False
    from PID_PATTERN_complete[OF assms, of post]
    have "re_search PID_PATTERN ?line \<noteq> None" by (rule re_search_complete)
    then obtain m where m: "re_search PID_PATTERN ?line = Some m" by blast
    from re_search_SomeD[OF m] obtain pre' t where
      l: "?line = pre' @ t" and mem0: "m \<in> set (matches PID_PATTERN t)" by blast
    from mem0 have mem: "(fst m, snd m) \<in> set (matches PID_PATTERN t)" by simp
    from matches_prefix[OF mem] obtain post' where t: "t = fst m @ post'"
      by (auto simp: prefix_def)
    from PID_PATTERN_shape[OF mem] obtain mid' sp' ds' where
      sh: "fst m = ''['' @ mid' @ [sp'] @ ''#'' @ ds' @ '']''" and
      g: "group m 1 = Some (''#'' @ ds')" "ds' \<noteq> []" "\<forall>d\<in>set ds'. is_digit d"
         "is_space sp'" "CHR 0x0A \<notin> set mid'"
      unfolding group_def by blast
    from l t sh have l': "?line = pre' @ ''['' @ mid' @ [sp'] @ ''#'' @ ds' @ '']'' @ post'"
      by simp
    from sh have g0: "group0 m = ''['' @ mid' @ [sp'] @ ''#'' @ ds' @ '']''"
      by (simp add: group0_def)
    have ie: "\<forall>r. extract_additional_data sub ?line = Some r
          \<longrightarrow> init_entity sub ?line = Some (r\<lparr>pid := Some (''#'' @ ds')\<rparr>)"
      using m g(1) by (simp add: init_entity_def)
    from m l' g0 g ie False show ?thesis by blast
  qed
qed

theorem C1_pid_keeps_hash_witness:
  "is_space CHR '' '' \<and> CHR 0x0A \<notin> set ''App'' \<and> ''42'' \<noteq> [] \<and> list_all is_digit ''42''
   \<and> CHR ''['' \<notin> set [] \<and> CHR '']'' \<notin> set ''App''
   \<and> map_option (\<lambda>m. (group0 m, group m 1)) (re_search PID_PATTERN ''[App #42] UsersController#show'')
       = Some (''[App #42]'', Some ''#42'')
   \<and> init_entity Controller ''[App #42] UsersController#show''
       = Some \<lparr>pid = Some ''#42'', controller_name = Some ''UsersController#show''\<rparr>
   \<and> map_option pid (init_entity Controller ''[X #1] [App #42] UsersController#show'')
       = Some (Some ''#1'')"
proof -
  have h: "is_space CHR '' ''" "CHR 0x0A \<notin> set ''App''" "''42'' \<noteq> []" "\<forall>d\<in>set ''42''. is_digit d"
    by (simp_all add: is_space_def is_digit_def)
  have c: "CHR ''['' \<notin> set []" "CHR '']'' \<notin> set ''App''" by simp_all
  have x: "extract_additional_data Controller ''[App #42] UsersController#show''
            = Some \<lparr>pid = None, controller_name = Some ''UsersController#show''\<rparr>"
    by code_simp
  from C1_pid_keeps_hash[OF h, of "[]" "'' UsersController#show''" Controller] c
  obtain m ds' where
    m: "re_search PID_PATTERN ''[App #42] UsersController#show'' = Some m"
       "group0 m = ''[App #'' @ ds' @ '']''" "group m 1 = Some (''#'' @ ds')" "ds' = ''42''" and
    ie: "\<forall>r. extract_additional_data Controller ''[App #42] UsersController#show'' = Some r
           \<longrightarrow> init_entity Controller ''[App #42] UsersController#show''
                 = Some (r\<lparr>pid := Some (''#'' @ ds')\<rparr>)"
    by auto
  from m have s: "map_option (\<lambda>m. (group0 m, group m 1))
        (re_search PID_PATTERN ''[App #42] UsersController#show'') = Some (''[App #42]'', Some ''#42'')"
    by simp
  from ie x m(4) have e: "init_entity Controller ''[App #42] UsersController#show''
       = Some \<lparr>pid = Some ''#42'', controller_name = Some ''UsersController#show''\<rparr>"
    by simp
  have two: "map_option pid (init_entity Controller ''[X #1] [App #42] UsersController#show'')
       = Some (Some ''#1'')"
    by code_simp
  from h c s e two show ?thesis unfolding list_all_iff by blast
qed

text \<open>
  C1 as the specification states it fails: on the line of its own example the \<open>pid\<close>
  of the record is \<open>#42\<close>, with the hash, and not \<open>42\<close>.
\<close>

theorem C1_counterexample:
  "map_option pid (init_entity Controller ''[App #42] UsersController#show'') = Some (Some ''#42'')
   \<and> map_option pid (init_entity Controller ''[App #42] UsersController#show'') \<noteq> Some (Some ''42'')"
  by code_simp

text \<open>
  C2.  A line on which the process-ID pattern finds nothing gives no record, whatever the
  extractor is and whatever it would return for the line, and a file with such a line
  accumulates exactly what it accumulates without the line.
\<close>

theorem C2_no_pid_no_record:
  assumes "re_search PID_PATTERN line = None"
  shows "init_entity sub line = None
         \<and> scan_lines sub (before @ [line] @ after) dl = scan_lines sub (before @ after) dl"
proof -
  from assms have n: "init_entity sub line = None" by (simp add: init_entity_def)
  then show ?thesis by (simp add: scan_lines_append)
qed

theorem C2_no_pid_no_record_witness:
  "re_search PID_PATTERN ''Processing by UsersController#show as HTML'' = None
   \<and> Controller_extract ''Processing by UsersController#show as HTML''
       = Some \<lparr>pid = None, controller_name = Some ''UsersController#show''\<rparr>
   \<and> init_entity Controller ''Processing by UsersController#show as HTML'' = None
   \<and> scan_lines Controller ([] @ [''Processing by UsersController#show as HTML''] @ []) [] = []"
proof -
  have h: "re_search PID_PATTERN ''Processing by UsersController#show as HTML'' = None"
    by code_simp
  have e: "Controller_extract ''Processing by UsersController#show as HTML''
       = Some \<lparr>pid = None, controller_name = Some ''UsersController#show''\<rparr>"
    by code_simp
  from C2_no_pid_no_record[OF h, of Controller "[]" "[]" "[]"] h e show ?thesis by simp
qed

text \<open>
  C6.  When the logs directory does not exist, \<open>export_tsv\<close> returns normally; it has
  logged one record at error level, it has done nothing on disk and \<open>data_list\<close> is as
  it was.
\<close>

theorem C6_missing_logs_dir:
  "export_tsv sub module_dir Missing log_name_pattern output_folder self
     = (Returned,
        self\<lparr>logger := logger self
                 @ [(ERROR, ''Log directory not found: '' @ path_join module_dir ''../logs'')]\<rparr>)
   \<and> fs (snd (export_tsv sub module_dir Missing log_name_pattern output_folder self)) = fs self
   \<and> data_list (snd (export_tsv sub module_dir Missing log_name_pattern output_folder self))
       = data_list self"
  by (simp add: export_tsv_def log_record_def)




text \<open>
  C4.  A match of the Views pattern or of the ActiveRecord pattern is a token
  \<open>D.Fms\<close> or \<open>Dms\<close> after its label, \<open>D\<close> and \<open>F\<close> non-empty strings of digits.
  \<open>__extract_decimal\<close> turns it into a decimal whose value is exactly the rational
  \<open>D + F / 10 ^ length F\<close> in the first case and exactly \<open>D\<close>, written with one zero
  after the point, in the second.
\<close>

theorem C4_extract_decimal_exact:
  assumes "re_search VIEWS_PATTERN line = Some m \<or> re_search DURATION_PATTERN line = Some m"
  shows "\<exists>D. group m 1 = Some D \<and> D \<noteq> [] \<and> (\<forall>d\<in>set D. is_digit d) \<and>
           ((group m 2 = None
              \<and> (group0 m = ''Views: '' @ D @ ''ms'' \<or> group0 m = ''ActiveRecord: '' @ D @ ''ms'')
              \<and> extract_decimal m = \<lparr>coefficient = 10 * int_of_str D, exponent = - 1\<rparr>
              \<and> decimal_value (extract_decimal m) = of_nat (int_of_str D)) \<or>
            (\<exists>F. group m 2 = Some F \<and> F \<noteq> [] \<and> (\<forall>d\<in>set F. is_digit d)
              \<and> (group0 m = ''Views: '' @ D @ ''.'' @ F @ ''ms''
                   \<or> group0 m = ''ActiveRecord: '' @ D @ ''.'' @ F @ ''ms'')
              \<and> extract_decimal m
                   = \<lparr>coefficient = int_of_str D * 10 ^ length F + int_of_str F,
                      exponent = - int (length F)\<rparr>
              \<and> decimal_value (extract_decimal m)
                   = of_nat (int_of_str D) + of_nat (int_of_str F) / 10 ^ length F))"
proof -
  from assms obtain lab t where lab: "lab = ''Views: '' \<or> lab = ''ActiveRecord: ''" and
    mem: "(fst m, snd m) \<in> set (matches
            (Cat (Lit lab) (Cat (Grp 1 (Rep Digit 1 True))
               (Cat (Opt (Cat (Lit ''.'') (Grp 2 (Rep Digit 1 True)))) (Lit ''ms'')))) t)"
    unfolding VIEWS_PATTERN_def DURATION_PATTERN_def
    by (auto dest!: re_search_SomeD)
  from ms_pattern_shape[OF mem] obtain D where
    D: "group m 1 = Some D" "D \<noteq> []" "\<forall>d\<in>set D. is_digit d" and
    alt: "(group m 2 = None \<and> group0 m = lab @ D @ ''ms'') \<or>
          (\<exists>F. group m 2 = Some F \<and> F \<noteq> [] \<and> (\<forall>d\<in>set F. is_digit d)
                \<and> group0 m = lab @ D @ ''.'' @ F @ ''ms'')"
    unfolding group_def group0_def by blast
  from alt show ?thesis
  proof
    assume n: "group m 2 = None \<and> group0 m = lab @ D @ ''ms''"
    have ed: "extract_decimal m = Decimal_of_parts D ''0''"
      using n D(1) by (simp add: extract_decimal_def)
    have c: "Decimal_of_parts D ''0'' = \<lparr>coefficient = 10 * int_of_str D, exponent = - 1\<rparr>"
      by (simp add: Decimal_of_parts_def int_of_str_append int_of_str_zero)
    have v: "decimal_value (Decimal_of_parts D ''0'') = of_nat (int_of_str D)"
      using decimal_value_parts[of "''0''" D] by (simp add: int_of_str_zero)
    from n lab have "group0 m = ''Views: '' @ D @ ''ms'' \<or> group0 m = ''ActiveRecord: '' @ D @ ''ms''"
      by auto
    with n ed c v D show ?thesis by auto
  next
    assume "\<exists>F. group m 2 = Some F \<and> F \<noteq> [] \<and> (\<forall>d\<in>set F. is_digit d)
                \<and> group0 m = lab @ D @ ''.'' @ F @ ''ms''"
    then obtain F where F: "group m 2 = Some F" "F \<noteq> []" "\<forall>d\<in>set F. is_digit d"
      "group0 m = lab @ D @ ''.'' @ F @ ''ms''" by blast
    have ed: "extract_decimal m = Decimal_of_parts D F"
      using F(1,2) D(1) by (simp add: extract_decimal_def)
    have c: "Decimal_of_parts D F
          = \<lparr>coefficient = int_of_str D * 10 ^ length F + int_of_str F, exponent = - int (length F)\<rparr>"
      by (simp add: Decimal_of_parts_def int_of_str_append)
    note v = decimal_value_parts[OF F(2), of D]
    from F(4) lab have "group0 m = ''Views: '' @ D @ ''.'' @ F @ ''ms''
          \<or> group0 m = ''ActiveRecord: '' @ D @ ''.'' @ F @ ''ms''" by auto
    with F ed c v D show ?thesis by auto
  qed
qed

theorem C4_extract_decimal_exact_witness:
  "(\<exists>m. re_search VIEWS_PATTERN ''INFO Views: 12.5ms ActiveRecord: 3ms'' = Some m
        \<and> group0 m = ''Views: 12.5ms''
        \<and> extract_decimal m = \<lparr>coefficient = 125, exponent = - 1\<rparr>
        \<and> decimal_value (extract_decimal m) = 25 / 2)
   \<and> (\<exists>m. re_search DURATION_PATTERN ''INFO Views: 12.5ms ActiveRecord: 3ms'' = Some m
        \<and> group0 m = ''ActiveRecord: 3ms''
        \<and> extract_decimal m = \<lparr>coefficient = 30, exponent = - 1\<rparr>
        \<and> decimal_value (extract_decimal m) = 3)"
proof -
  have "map_option (\<lambda>m. (group0 m, group m 1, group m 2))
          (re_search VIEWS_PATTERN ''INFO Views: 12.5ms ActiveRecord: 3ms'')
        = Some (''Views: 12.5ms'', Some ''12'', Some ''5'')"
    by code_simp
  then obtain mv where mv: "re_search VIEWS_PATTERN ''INFO Views: 12.5ms ActiveRecord: 3ms'' = Some mv"
    "group0 mv = ''Views: 12.5ms''" "group mv 1 = Some ''12''" "group mv 2 = Some ''5''"
    by auto
  have i12: "int_of_str ''12'' = 12" "int_of_str ''5'' = 5" "int_of_str ''3'' = 3"
    by (simp_all add: int_of_str_def digit_val_def)
  from C4_extract_decimal_exact[of "''INFO Views: 12.5ms ActiveRecord: 3ms''" mv] mv
  have v: "extract_decimal mv = \<lparr>coefficient = 125, exponent = - 1\<rparr>
        \<and> decimal_value (extract_decimal mv) = 25 / 2"
    by (auto simp: i12)
  have "map_option (\<lambda>m. (group0 m, group m 1, group m 2))
          (re_search DURATION_PATTERN ''INFO Views: 12.5ms ActiveRecord: 3ms'')
        = Some (''ActiveRecord: 3ms'', Some ''3'', None)"
    by code_simp
  then obtain md where md: "re_search DURATION_PATTERN ''INFO Views: 12.5ms ActiveRecord: 3ms'' = Some md"
    "group0 md = ''ActiveRecord: 3ms''" "group md 1 = Some ''3''" "group md 2 = None"
    by auto
  from C4_extract_decimal_exact[of "''INFO Views: 12.5ms ActiveRecord: 3ms''" md] md
  have d: "extract_decimal md = \<lparr>coefficient = 30, exponent = - 1\<rparr>
        \<and> decimal_value (extract_decimal md) = 3"
    by (auto simp: i12)
  from mv v md d show ?thesis by blast
qed


text \<open>
  C5 fails on the code.  The warning for a file without records is guarded by
  \<open>if not self.data_list\<close>, the records of all files so far, not those of the file.
  Here the second file gives no record and the first has given one: the export logs the
  start of both files and the export itself, and no warning.
\<close>

theorem C5_no_warning_after_earlier_records:
  "scan_lines Controller [''Started GET /users for 127.0.0.1''] [] = []
   \<and> export_tsv Controller ''/app/extractor''
       (Listing [(''production.log.000001'', Readable [''[App #42] UsersController#show'']),
                 (''production.log.000002'', Readable [''Started GET /users for 127.0.0.1''])])
       (task_log_name_pattern ''production'') ''out'' init
     = (Returned,
        \<lparr>data_list = [\<lparr>pid = Some ''#42'', controller_name = Some ''UsersController#show''\<rparr>],
         logger =
           [(INFO, ''Starting to process log file: /app/extractor/../logs/production.log.000001''),
            (INFO, ''Starting to process log file: /app/extractor/../logs/production.log.000002''),
            (INFO, ''Data exported to /app/extractor/../tmp/out/controller.tsv'')],
         fs =
           [MakeDirs ''/app/extractor/../tmp/out'',
            WriteTsv ''/app/extractor/../tmp/out/controller.tsv''
              [\<lparr>pid = Some ''#42'', controller_name = Some ''UsersController#show''\<rparr>]]\<rparr>)"
  by code_simp

text \<open>
  C7.  When a selected file cannot be opened and the selected files before it could, the
  export raises the error of \<open>open\<close>.  It has logged the error, the files after the
  failing one play no part in the result, and it has done nothing on disk.
\<close>

theorem C7_open_failure_aborts:
  assumes "re_match log_name_pattern name \<noteq> None"
    and "process_files sub (path_join module_dir ''../logs'') log_name_pattern before self
           = (Returned, self')"
  shows "export_tsv sub module_dir (Listing (before @ (name, Unopenable e) # after))
           log_name_pattern output_folder self
         = (Raised e,
            log_record ERROR (''Error opening file '' @ path_join module_dir ''../logs'' @ ''/'' @ name
                         @ '': '' @ e)
              (log_record INFO (''Starting to process log file: ''
                           @ path_join module_dir ''../logs'' @ ''/'' @ name) self'))
         \<and> fs (snd (export_tsv sub module_dir (Listing (before @ (name, Unopenable e) # after))
                      log_name_pattern output_folder self)) = fs self"
proof -
  let ?ld = "path_join module_dir ''../logs''"
  have p: "process_files sub ?ld log_name_pattern (before @ (name, Unopenable e) # after) self
        = (Raised e,
            log_record ERROR (''Error opening file '' @ ?ld @ ''/'' @ name @ '': '' @ e)
              (log_record INFO (''Starting to process log file: '' @ ?ld @ ''/'' @ name) self'))"
    using assms by (simp add: process_files_append convert_log_into_array_def Let_def)
  from process_files_fs[of sub ?ld log_name_pattern before self] assms(2)
  have "fs self' = fs self" by simp
  with p show ?thesis by (simp add: export_tsv_def Let_def log_record_def)
qed

theorem C7_open_failure_aborts_witness:
  "re_match (task_log_name_pattern ''production'') ''production.log.000002'' \<noteq> None
   \<and> export_tsv Controller ''/app/extractor''
       (Listing ([(''production.log.000001'', Readable [''[App #42] UsersController#show''])]
                 @ (''production.log.000002'', Unopenable ''Permission denied'')
                 # [(''production.log.000003'', Readable [''[App #43] PostsController#index''])]))
       (task_log_name_pattern ''production'') ''out'' init
     = (Raised ''Permission denied'',
        \<lparr>data_list = [\<lparr>pid = Some ''#42'', controller_name = Some ''UsersController#show''\<rparr>],
         logger =
           [(INFO, ''Starting to process log file: /app/extractor/../logs/production.log.000001''),
            (INFO, ''Starting to process log file: /app/extractor/../logs/production.log.000002''),
            (ERROR, ''Error opening file /app/extractor/../logs/production.log.000002: Permission denied'')],
         fs = []\<rparr>)"
proof -
  have m: "re_match (task_log_name_pattern ''production'') ''production.log.000002'' \<noteq> None"
    by code_simp
  have b: "process_files Controller (path_join ''/app/extractor'' ''../logs'')
             (task_log_name_pattern ''production'')
             [(''production.log.000001'', Readable [''[App #42] UsersController#show''])] init
           = (Returned,
              \<lparr>data_list = [\<lparr>pid = Some ''#42'', controller_name = Some ''UsersController#show''\<rparr>],
               logger = [(INFO, ''Starting to process log file: /app/extractor/../logs/production.log.000001'')],
               fs = []\<rparr>)"
    by code_simp
  have pj: "path_join ''/app/extractor'' ''../logs'' = ''/app/extractor/../logs''"
    by code_simp
  from C7_open_failure_aborts[OF m b, of "''Permission denied''"
      "[(''production.log.000003'', Readable [''[App #43] PostsController#index''])]" "''out''"] m
  show ?thesis by (simp add: log_record_def pj)
qed

text \<open>
  C8.  When every selected file could be opened, the export returns normally after it
  has made the output directory.  If \<open>data_list\<close> is not empty, it then writes one
  table, at \<open>output_dir/name.tsv\<close> with \<open>name\<close> the class name in lower case, whose
  rows are the elements of \<open>data_list\<close> in their order, and logs the export; if
  \<open>data_list\<close> is empty it writes nothing and logs a warning.
\<close>

theorem C8_tsv_iff_records:
  assumes "process_files sub (path_join module_dir ''../logs'') log_name_pattern log_files self
             = (Returned, self')"
  shows "\<exists>final. export_tsv sub module_dir (Listing log_files) log_name_pattern output_folder self
                   = (Returned, final)
           \<and> data_list final = data_list self'
           \<and> (data_list self' \<noteq> [] \<longrightarrow>
                fs final = fs self @
                  [MakeDirs (path_join (path_join module_dir ''../tmp'') output_folder),
                   WriteTsv (path_join (path_join module_dir ''../tmp'') output_folder
                               @ ''/'' @ str_lower (cls_name sub) @ ''.tsv'') (data_list self')]
                \<and> logger final = logger self' @
                  [(INFO, ''Data exported to ''
                            @ path_join (path_join module_dir ''../tmp'') output_folder
                            @ ''/'' @ str_lower (cls_name sub) @ ''.tsv'')])
           \<and> (data_list self' = [] \<longrightarrow>
                fs final = fs self @
                  [MakeDirs (path_join (path_join module_dir ''../tmp'') output_folder)]
                \<and> logger final = logger self' @ [(WARNING, ''No data found to export'')])"
proof -
  from process_files_fs[of sub "path_join module_dir ''../logs''" log_name_pattern log_files self]
    assms
  have "fs self' = fs self" by simp
  with assms show ?thesis by (simp add: export_tsv_def Let_def log_record_def)
qed

theorem C8_tsv_iff_records_witness:
  "export_tsv Controller ''/app/extractor''
       (Listing [(''production.log.000001'',
                  Readable [''[App #42] UsersController#show'', ''[App #43] PostsController#index''])])
       (task_log_name_pattern ''production'') ''out'' init
     = (Returned,
        \<lparr>data_list = [\<lparr>pid = Some ''#42'', controller_name = Some ''UsersController#show''\<rparr>,
                      \<lparr>pid = Some ''#43'', controller_name = Some ''PostsController#index''\<rparr>],
         logger =
           [(INFO, ''Starting to process log file: /app/extractor/../logs/production.log.000001''),
            (INFO, ''Data exported to /app/extractor/../tmp/out/controller.tsv'')],
         fs =
           [MakeDirs ''/app/extractor/../tmp/out'',
            WriteTsv ''/app/extractor/../tmp/out/controller.tsv''
              [\<lparr>pid = Some ''#42'', controller_name = Some ''UsersController#show''\<rparr>,
               \<lparr>pid = Some ''#43'', controller_name = Some ''PostsController#index''\<rparr>]]\<rparr>)
   \<and> export_tsv Controller ''/app/extractor''
       (Listing [(''production.log.000001'', Readable [''Started GET /users for 127.0.0.1''])])
       (task_log_name_pattern ''production'') ''out'' init
     = (Returned,
        \<lparr>data_list = [],
         logger =
           [(INFO, ''Starting to process log file: /app/extractor/../logs/production.log.000001''),
            (WARNING, ''No data extracted from log file: /app/extractor/../logs/production.log.000001''),
            (WARNING, ''No data found to export'')],
         fs = [MakeDirs ''/app/extractor/../tmp/out'']\<rparr>)"
proof -
  have b1: "process_files Controller (path_join ''/app/extractor'' ''../logs'')
             (task_log_name_pattern ''production'')
             [(''production.log.000001'',
               Readable [''[App #42] UsersController#show'', ''[App #43] PostsController#index''])] init
           = (Returned,
              \<lparr>data_list = [\<lparr>pid = Some ''#42'', controller_name = Some ''UsersController#show''\<rparr>,
                            \<lparr>pid = Some ''#43'', controller_name = Some ''PostsController#index''\<rparr>],
               logger = [(INFO, ''Starting to process log file: /app/extractor/../logs/production.log.000001'')],
               fs = []\<rparr>)"
    by code_simp
  have b2: "process_files Controller (path_join ''/app/extractor'' ''../logs'')
             (task_log_name_pattern ''production'')
             [(''production.log.000001'', Readable [''Started GET /users for 127.0.0.1''])] init
           = (Returned,
              \<lparr>data_list = [],
               logger = [(INFO, ''Starting to process log file: /app/extractor/../logs/production.log.000001''),
                         (WARNING, ''No data extracted from log file: /app/extractor/../logs/production.log.000001'')],
               fs = []\<rparr>)"
    by code_simp
  have pj: "path_join (path_join ''/app/extractor'' ''../tmp'') ''out'' = ''/app/extractor/../tmp/out''"
    by code_simp
  have lo: "str_lower (cls_name Controller) = ''controller''" by code_simp
  from C8_tsv_iff_records[OF b1, of "''out''"] C8_tsv_iff_records[OF b2, of "''out''"]
  show ?thesis by (auto simp: pj lo init_def)
qed


text \<open>
  C9 fails on the code when the two exports are run on the same extractor instance:
  \<open>data_list\<close> is set to the empty list in \<open>__init__\<close> only, so the second export
  appends to the records of the first.  With one file of one matching line, the first
  export writes a table of one row and the second a table of two.
\<close>

theorem C9_counterexample:
  "last (fs (snd (export_tsv Controller ''/app/extractor''
       (Listing [(''production.log.000001'', Readable [''[App #42] UsersController#show''])])
       (task_log_name_pattern ''production'') ''out'' init)))
     = WriteTsv ''/app/extractor/../tmp/out/controller.tsv''
         [\<lparr>pid = Some ''#42'', controller_name = Some ''UsersController#show''\<rparr>]
   \<and> last (fs (snd (export_tsv Controller ''/app/extractor''
       (Listing [(''production.log.000001'', Readable [''[App #42] UsersController#show''])])
       (task_log_name_pattern ''production'') ''out''
       (snd (export_tsv Controller ''/app/extractor''
          (Listing [(''production.log.000001'', Readable [''[App #42] UsersController#show''])])
          (task_log_name_pattern ''production'') ''out'' init)))))
     = WriteTsv ''/app/extractor/../tmp/out/controller.tsv''
         [\<lparr>pid = Some ''#42'', controller_name = Some ''UsersController#show''\<rparr>,
          \<lparr>pid = Some ''#42'', controller_name = Some ''UsersController#show''\<rparr>]
   \<and> last (fs (snd (export_tsv Controller ''/app/extractor''
       (Listing [(''production.log.000001'', Readable [''[App #42] UsersController#show''])])
       (task_log_name_pattern ''production'') ''out''
       (snd (export_tsv Controller ''/app/extractor''
          (Listing [(''production.log.000001'', Readable [''[App #42] UsersController#show''])])
          (task_log_name_pattern ''production'') ''out'' init)))))
     \<noteq> last (fs (snd (export_tsv Controller ''/app/extractor''
       (Listing [(''production.log.000001'', Readable [''[App #42] UsersController#show''])])
       (task_log_name_pattern ''production'') ''out'' init)))"
  by code_simp

text \<open>
  C9, as amended.  The table an export writes is the records the instance already holds
  followed by the records a freshly constructed instance collects from the same directory
  with the same filter.  So every export from a fresh instance writes the same table, and
  a second export on the same instance writes the rows of the first followed by the same
  rows again.
\<close>

theorem C9_export_appends_to_held_records:
  assumes "export_tsv sub module_dir (Listing log_files) log_name_pattern output_folder init
             = (Returned, fresh)"
  shows "\<exists>final. export_tsv sub module_dir (Listing log_files) log_name_pattern output_folder self
                   = (Returned, final)
           \<and> data_list final = data_list self @ data_list fresh
           \<and> (data_list final \<noteq> [] \<longrightarrow>
                last (fs final)
                  = WriteTsv (path_join (path_join module_dir ''../tmp'') output_folder
                               @ ''/'' @ str_lower (cls_name sub) @ ''.tsv'')
                      (data_list self @ data_list fresh))"
proof -
  let ?ld = "path_join module_dir ''../logs''"
  obtain oc s0 where p0: "process_files sub ?ld log_name_pattern log_files init = (oc, s0)"
    by (cases "process_files sub ?ld log_name_pattern log_files init")
  have oc: "oc = Returned"
  proof (cases oc)
    case Returned
    then show ?thesis .
  next
    case (Raised e)
    with p0 assms show ?thesis by (simp add: export_tsv_def)
  qed
  from p0 oc have p0': "process_files sub ?ld log_name_pattern log_files init = (Returned, s0)"
    by simp
  from assms p0' have d0: "data_list fresh = data_list s0"
    by (auto simp: export_tsv_def Let_def log_record_def split: if_splits)
  from process_files_from_init[OF p0', of self] obtain s where
    ps: "process_files sub ?ld log_name_pattern log_files self = (Returned, s)" and
    ds: "data_list s = data_list self @ data_list s0"
    by blast
  from ps ds d0 show ?thesis by (simp add: export_tsv_def Let_def log_record_def)
qed

theorem C9_export_appends_to_held_records_witness:
  "export_tsv Controller ''/app/extractor''
       (Listing [(''production.log.000001'', Readable [''[App #42] UsersController#show''])])
       (task_log_name_pattern ''production'') ''out'' init
     = (Returned,
        \<lparr>data_list = [\<lparr>pid = Some ''#42'', controller_name = Some ''UsersController#show''\<rparr>],
         logger =
           [(INFO, ''Starting to process log file: /app/extractor/../logs/production.log.000001''),
            (INFO, ''Data exported to /app/extractor/../tmp/out/controller.tsv'')],
         fs =
           [MakeDirs ''/app/extractor/../tmp/out'',
            WriteTsv ''/app/extractor/../tmp/out/controller.tsv''
              [\<lparr>pid = Some ''#42'', controller_name = Some ''UsersController#show''\<rparr>]]\<rparr>)
   \<and> (\<exists>final. export_tsv Controller ''/app/extractor''
          (Listing [(''production.log.000001'', Readable [''[App #42] UsersController#show''])])
          (task_log_name_pattern ''production'') ''out''
          \<lparr>data_list = [\<lparr>pid = Some ''#42'', controller_name = Some ''UsersController#show''\<rparr>],
           logger =
             [(INFO, ''Starting to process log file: /app/extractor/../logs/production.log.000001''),
              (INFO, ''Data exported to /app/extractor/../tmp/out/controller.tsv'')],
           fs =
             [MakeDirs ''/app/extractor/../tmp/out'',
              WriteTsv ''/app/extractor/../tmp/out/controller.tsv''
                [\<lparr>pid = Some ''#42'', controller_name = Some ''UsersController#show''\<rparr>]]\<rparr>
          = (Returned, final)
        \<and> last (fs final)
            = WriteTsv ''/app/extractor/../tmp/out/controller.tsv''
                [\<lparr>pid = Some ''#42'', controller_name = Some ''UsersController#show''\<rparr>,
                 \<lparr>pid = Some ''#42'', controller_name = Some ''UsersController#show''\<rparr>])"
proof -
  have r1: "export_tsv Controller ''/app/extractor''
       (Listing [(''production.log.000001'', Readable [''[App #42] UsersController#show''])])
       (task_log_name_pattern ''production'') ''out'' init
     = (Returned,
        \<lparr>data_list = [\<lparr>pid = Some ''#42'', controller_name = Some ''UsersController#show''\<rparr>],
         logger =
           [(INFO, ''Starting to process log file: /app/extractor/../logs/production.log.000001''),
            (INFO, ''Data exported to /app/extractor/../tmp/out/controller.tsv'')],
         fs =
           [MakeDirs ''/app/extractor/../tmp/out'',
            WriteTsv ''/app/extractor/../tmp/out/controller.tsv''
              [\<lparr>pid = Some ''#42'', controller_name = Some ''UsersController#show''\<rparr>]]\<rparr>)"
    by code_simp
  have pj: "path_join (path_join ''/app/extractor'' ''../tmp'') ''out'' = ''/app/extractor/../tmp/out''"
    by code_simp
  have lo: "str_lower (cls_name Controller) = ''controller''" by code_simp
  from C9_export_appends_to_held_records[OF r1,
      of "\<lparr>data_list = [\<lparr>pid = Some ''#42'', controller_name = Some ''UsersController#show''\<rparr>],
           logger =
             [(INFO, ''Starting to process log file: /app/extractor/../logs/production.log.000001''),
              (INFO, ''Data exported to /app/extractor/../tmp/out/controller.tsv'')],
           fs =
             [MakeDirs ''/app/extractor/../tmp/out'',
              WriteTsv ''/app/extractor/../tmp/out/controller.tsv''
                [\<lparr>pid = Some ''#42'', controller_name = Some ''UsersController#show''\<rparr>]]\<rparr>"]
  have "\<exists>final. export_tsv Controller ''/app/extractor''
          (Listing [(''production.log.000001'', Readable [''[App #42] UsersController#show''])])
          (task_log_name_pattern ''production'') ''out''
          \<lparr>data_list = [\<lparr>pid = Some ''#42'', controller_name = Some ''UsersController#show''\<rparr>],
           logger =
             [(INFO, ''Starting to process log file: /app/extractor/../logs/production.log.000001''),
              (INFO, ''Data exported to /app/extractor/../tmp/out/controller.tsv'')],
           fs =
             [MakeDirs ''/app/extractor/../tmp/out'',
              WriteTsv ''/app/extractor/../tmp/out/controller.tsv''
                [\<lparr>pid = Some ''#42'', controller_name = Some ''UsersController#show''\<rparr>]]\<rparr>
          = (Returned, final)
        \<and> last (fs final)
            = WriteTsv ''/app/extractor/../tmp/out/controller.tsv''
                [\<lparr>pid = Some ''#42'', controller_name = Some ''UsersController#show''\<rparr>,
                 \<lparr>pid = Some ''#42'', controller_name = Some ''UsersController#show''\<rparr>]"
    by (auto simp: pj lo)
  with r1 show ?thesis by blast
qed

text \<open>
  C10.  When no name is left after the exclusion filter, the pattern of the Model
  extractor is the empty pattern: it matches every string, at its start, with the empty
  text.  Every line that contains \<open>DEBUG\<close> and on which the process-ID pattern
  matches then gives a record whose \<open>class_name\<close> is the empty string.
\<close>

theorem C10_empty_model_pattern:
  assumes "filter (\<lambda>el. el \<notin> set EXCLUDE_CLASS_NAMES) (map re_escape table_names) = []"
  shows "modelname_into_regexp table_names = Alt [Lit []]
         \<and> (\<forall>s. re_search (modelname_into_regexp table_names) s = Some ([], Map.empty))
         \<and> (str_in ''DEBUG'' line \<longrightarrow>
              (\<forall>pm. re_search PID_PATTERN line = Some pm \<longrightarrow>
                 init_entity (Model table_names) line
                   = Some \<lparr>pid = group pm 1, class_name = Some []\<rparr>))"
proof -
  from assms have p: "modelname_into_regexp table_names = Alt [Lit []]"
    by (simp add: modelname_into_regexp_def Let_def re_compile_escaped_def)
  then have s: "\<forall>s. re_search (modelname_into_regexp table_names) s = Some ([], Map.empty)"
    by (simp add: re_search_empty_pattern)
  have "str_in ''DEBUG'' line \<longrightarrow>
          (\<forall>pm. re_search PID_PATTERN line = Some pm \<longrightarrow>
             init_entity (Model table_names) line = Some \<lparr>pid = group pm 1, class_name = Some []\<rparr>)"
    using s by (simp add: init_entity_def Model_def Model_extract_def group0_def)
  with p s show ?thesis by blast
qed

theorem C10_empty_model_pattern_witness:
  "filter (\<lambda>el. el \<notin> set EXCLUDE_CLASS_NAMES)
      (map re_escape [''SchemaMigration'', ''ArInternalMetadata'']) = []
   \<and> modelname_into_regexp [''SchemaMigration'', ''ArInternalMetadata''] = Alt [Lit []]
   \<and> str_in ''DEBUG'' ''DEBUG [App #42] SELECT 1''
   \<and> init_entity (Model [''SchemaMigration'', ''ArInternalMetadata'']) ''DEBUG [App #42] SELECT 1''
       = Some \<lparr>pid = Some ''#42'', class_name = Some []\<rparr>"
proof -
  have h: "filter (\<lambda>el. el \<notin> set EXCLUDE_CLASS_NAMES)
      (map re_escape [''SchemaMigration'', ''ArInternalMetadata'']) = []"
    by code_simp
  have d: "str_in ''DEBUG'' ''DEBUG [App #42] SELECT 1''" by code_simp
  have "map_option (\<lambda>m. group m 1) (re_search PID_PATTERN ''DEBUG [App #42] SELECT 1'')
          = Some (Some ''#42'')"
    by code_simp
  then obtain pm where pm: "re_search PID_PATTERN ''DEBUG [App #42] SELECT 1'' = Some pm"
    "group pm 1 = Some ''#42''" by auto
  note c = C10_empty_model_pattern[OF h, of "''DEBUG [App #42] SELECT 1''"]
  from c have a: "modelname_into_regexp [''SchemaMigration'', ''ArInternalMetadata''] = Alt [Lit []]"
    by blast
  from c d pm(1) have "init_entity (Model [''SchemaMigration'', ''ArInternalMetadata''])
      ''DEBUG [App #42] SELECT 1'' = Some \<lparr>pid = group pm 1, class_name = Some []\<rparr>"
    by blast
  with pm(2) have e: "init_entity (Model [''SchemaMigration'', ''ArInternalMetadata''])
      ''DEBUG [App #42] SELECT 1'' = Some \<lparr>pid = Some ''#42'', class_name = Some []\<rparr>"
    by (simp only:)
  from h a d e show ?thesis by blast
qed

end
